theory Spec2Isabelle
  imports Complex_Main "HOL-Library.Sublist" "HOL-Library.Multiset" "HOL-Library.Log_Nat"
begin

section \<open>The context-selection engine of slack-llm-translate\<close>

text \<open>
  A shallow embedding of \<^verbatim>\<open>src/utils/context-manager.js\<close>.

  Strings. A JavaScript string is a sequence of UTF-16 code units and \<^verbatim>\<open>length\<close>
  counts them. The model uses \<^typ>\<open>string\<close>: one \<^typ>\<open>char\<close> is one code unit in the
  range 0..255 (Latin-1), so the texts covered are those of that range.

  Numbers. Counts, lengths, timestamps and the integer settings are \<^typ>\<open>int\<close> or
  \<^typ>\<open>nat\<close> (JavaScript is exact on integers up to \<open>2^53\<close>). A relevance score is the
  exact quotient in \<^typ>\<open>rat\<close>, and so is the threshold. JavaScript holds the doubles
  nearest to them; rounding is monotone, so the doubles compare with each other and with
  0 and 1 as the exact numbers do, and a score can pass the threshold as a double without
  passing it exactly only when the threshold lies within one rounding step above the
  quotient. The percentage of the stats accessor is rendered digit by digit, so there the
  rounding to doubles is modelled.
\<close>

subsection \<open>Data model\<close>

text \<open>A row of the conversation store: \<^verbatim>\<open>{role, content, timestamp}\<close>.\<close>

record message =
  role :: string
  content :: string
  timestamp :: int

text \<open>The object returned by \<^verbatim>\<open>createConfig\<close>, read by every stage as \<^verbatim>\<open>CONFIG\<close>.\<close>

record config =
  MAX_CONTEXT_CHARS :: int
  MIN_RECENT_MESSAGES :: int
  MAX_RELEVANT_OLDER :: int
  MIN_KEYWORD_LENGTH :: int
  RELEVANCE_THRESHOLD :: rat

subsection \<open>Built-ins of the language\<close>

text \<open>
  \<^verbatim>\<open>Array.prototype.slice\<close>: a negative index counts from the end, and both ends are
  clamped to the array. \<open>slice_from\<close> is the call with one argument.
\<close>

definition relative_index :: "int \<Rightarrow> nat \<Rightarrow> nat" where
  "relative_index i len = (if i < 0 then nat (max (int len + i) 0) else nat (min i (int len)))"

definition slice :: "int \<Rightarrow> int \<Rightarrow> 'a list \<Rightarrow> 'a list" where
  "slice start stop xs =
     (let k = relative_index start (length xs); final = relative_index stop (length xs)
      in take (final - k) (drop k xs))"

definition slice_from :: "int \<Rightarrow> 'a list \<Rightarrow> 'a list" where
  "slice_from start xs = drop (relative_index start (length xs)) xs"

text \<open>
  \<^verbatim>\<open>Array.prototype.sort(comparefn)\<close>. The sort is stable, and a comparator result of
  \<^verbatim>\<open>NaN\<close> counts as 0; the comparators below return the sign that is left after
  that. For a consistent comparator the language fixes the result, and \<open>js_sort\<close>
  computes it (a stable insertion sort). For an inconsistent comparator the language
  leaves the order to the implementation; \<open>js_sort\<close> then gives one possible order.
\<close>

fun insert_by :: "('a \<Rightarrow> 'a \<Rightarrow> int) \<Rightarrow> 'a \<Rightarrow> 'a list \<Rightarrow> 'a list" where
  "insert_by cmp x [] = [x]"
| "insert_by cmp x (y # ys) = (if cmp x y \<le> 0 then x # y # ys else y # insert_by cmp x ys)"

definition js_sort :: "('a \<Rightarrow> 'a \<Rightarrow> int) \<Rightarrow> 'a list \<Rightarrow> 'a list" where
  "js_sort cmp xs = foldr (insert_by cmp) xs []"

text \<open>
  Character classes of the regular expressions, on code units: \<^verbatim>\<open>\w\<close> is
  \<^verbatim>\<open>[A-Za-z0-9_]\<close>, \<^verbatim>\<open>\d\<close> is \<^verbatim>\<open>[0-9]\<close>, and \<^verbatim>\<open>\s\<close> below 256 is tab, line feed,
  vertical tab, form feed, carriage return, space and the no-break space.
\<close>

definition code_unit :: "char \<Rightarrow> nat" where
  "code_unit c = of_char c"

definition is_digit :: "char \<Rightarrow> bool" where
  "is_digit c = (48 \<le> code_unit c \<and> code_unit c \<le> 57)"

definition is_word_char :: "char \<Rightarrow> bool" where
  "is_word_char c =
     (is_digit c \<or> (65 \<le> code_unit c \<and> code_unit c \<le> 90) \<or> code_unit c = 95
      \<or> (97 \<le> code_unit c \<and> code_unit c \<le> 122))"

definition is_space :: "char \<Rightarrow> bool" where
  "is_space c = ((9 \<le> code_unit c \<and> code_unit c \<le> 13) \<or> code_unit c = 32 \<or> code_unit c = 160)"

text \<open>
  \<^verbatim>\<open>String.prototype.toLowerCase\<close> below 256: the letters A to Z, and the Latin-1 capitals
  (192 to 222 without the multiplication sign 215), move up by 32.
\<close>

definition lower_char :: "char \<Rightarrow> char" where
  "lower_char c =
     (if (65 \<le> code_unit c \<and> code_unit c \<le> 90)
         \<or> (192 \<le> code_unit c \<and> code_unit c \<le> 222 \<and> code_unit c \<noteq> 215)
      then char_of (code_unit c + 32) else c)"

definition toLowerCase :: "string \<Rightarrow> string" where
  "toLowerCase s = map lower_char s"

text \<open>\<^verbatim>\<open>.replace(/[^\w\s]/g, ' ')\<close>\<close>

definition replace_punctuation :: "string \<Rightarrow> string" where
  "replace_punctuation s = map (\<lambda>c. if is_word_char c \<or> is_space c then c else CHR '' '') s"

text \<open>
  \<^verbatim>\<open>.split(/\s+/)\<close>: the pieces between maximal runs of white space. A string that
  starts or ends with white space gives an empty first or last piece, and the empty
  string gives one empty piece.
\<close>

function split_ws :: "string \<Rightarrow> string list" where
  "split_ws [] = [[]]"
| "split_ws (c # cs) =
     (if is_space c then [] # split_ws (dropWhile is_space cs)
      else (case split_ws cs of [] \<Rightarrow> [[c]] | piece # pieces \<Rightarrow> (c # piece) # pieces))"
  by pat_completeness auto
termination
  by (relation "measure length") (auto simp: le_imp_less_Suc length_dropWhile_le)

text \<open>\<^verbatim>\<open>String.prototype.includes\<close>: the argument occurs as a contiguous substring.\<close>

fun js_includes :: "string \<Rightarrow> string \<Rightarrow> bool" where
  "js_includes [] k = (k = [])"
| "js_includes (c # cs) k = (prefix k (c # cs) \<or> js_includes cs k)"

text \<open>
  Numbers. A division by zero throws no exception: \<^verbatim>\<open>0 / 0\<close> is \<^verbatim>\<open>NaN\<close> and \<^verbatim>\<open>m / 0\<close> is
  \<^verbatim>\<open>Infinity\<close> for \<open>m > 0\<close>. \<open>js_divide\<close> is the division of two counts.
\<close>

datatype jsnum = NaN | Infinity | NegInfinity | Finite rat

definition js_divide :: "nat \<Rightarrow> nat \<Rightarrow> jsnum" where
  "js_divide m k =
     (if k = 0 then (if m = 0 then NaN else Infinity) else Finite (of_nat m / of_nat k))"

text \<open>\<^verbatim>\<open>x >= t\<close> for a finite \<open>t\<close>: false when \<open>x\<close> is \<^verbatim>\<open>NaN\<close>.\<close>

fun js_ge :: "jsnum \<Rightarrow> rat \<Rightarrow> bool" where
  "js_ge NaN t = False"
| "js_ge Infinity t = True"
| "js_ge NegInfinity t = False"
| "js_ge (Finite x) t = (x \<ge> t)"

text \<open>The sign of \<^verbatim>\<open>x - y\<close> as a comparator result (\<^verbatim>\<open>NaN\<close> counts as 0).\<close>

fun js_minus_sign :: "jsnum \<Rightarrow> jsnum \<Rightarrow> int" where
  "js_minus_sign (Finite x) (Finite y) = (if x < y then - 1 else if x = y then 0 else 1)"
| "js_minus_sign Infinity (Finite y) = 1"
| "js_minus_sign Infinity NegInfinity = 1"
| "js_minus_sign (Finite x) NegInfinity = 1"
| "js_minus_sign (Finite x) Infinity = - 1"
| "js_minus_sign NegInfinity (Finite y) = - 1"
| "js_minus_sign NegInfinity Infinity = - 1"
| "js_minus_sign x y = 0"

text \<open>
  Rounding to a double (IEEE 754 binary64, round to nearest, ties to even): a number
  \<open>q\<close> with \<open>2^e \<le> |q| < 2^(e + 1)\<close> is rounded to a multiple of \<open>2^(e - 52)\<close>, or of
  \<open>2^(- 1074)\<close> in the subnormal range, and a result of \<open>2^1024\<close> or more is infinite.
\<close>

definition pow2 :: "int \<Rightarrow> rat" where
  "pow2 e = (if 0 \<le> e then 2 ^ nat e else 1 / 2 ^ nat (- e))"

definition round_half_even :: "rat \<Rightarrow> int" where
  "round_half_even q =
     (let f = \<lfloor>q\<rfloor>; r = q - of_int f
      in if r < 1 / 2 then f else if 1 / 2 < r then f + 1 else if even f then f else f + 1)"

definition binary_exponent :: "rat \<Rightarrow> int" where
  "binary_exponent q =
     (let e = bitlen (fst (quotient_of q)) - bitlen (snd (quotient_of q))
      in if pow2 e \<le> q then e else e - 1)"

definition round_double :: "rat \<Rightarrow> jsnum" where
  "round_double q =
     (if q = 0 then Finite 0
      else
        let ulp = pow2 (max (binary_exponent \<bar>q\<bar> - 52) (- 1074));
            r = of_int (round_half_even (\<bar>q\<bar> / ulp)) * ulp
        in if 2 ^ 1024 \<le> r then (if 0 < q then Infinity else NegInfinity)
           else Finite (sgn q * r))"

text \<open>
  \<^verbatim>\<open>t / m\<close> for a count \<open>t\<close> and an integer \<open>m\<close>, and \<^verbatim>\<open>v * y\<close>, both rounded. (The
  integers are taken to be doubles themselves, which they are up to \<open>2^53\<close>.)
\<close>

definition js_over :: "nat \<Rightarrow> int \<Rightarrow> jsnum" where
  "js_over t m = (if m = 0 then (if t = 0 then NaN else Infinity) else round_double (of_nat t / of_int m))"

fun js_times :: "jsnum \<Rightarrow> rat \<Rightarrow> jsnum" where
  "js_times (Finite x) y = round_double (x * y)"
| "js_times v y = v"

text \<open>
  \<^verbatim>\<open>Number.prototype.toFixed(1)\<close>. With \<open>n\<close> the integer for which \<open>n / 10\<close> is nearest
  to \<open>|x|\<close> (the larger one of two), the result is the sign, the decimal digits of \<open>n\<close>
  with a leading zero when there is only one, and a point before the last digit. From
  \<open>10^21\<close> on the result is the exponential notation of \<^verbatim>\<open>String(x)\<close>, whose digits are
  not modelled.
\<close>

definition digit :: "nat \<Rightarrow> char" where
  "digit d = char_of (48 + d)"

function decimal :: "nat \<Rightarrow> string" where
  "decimal n = (if n < 10 then [digit n] else decimal (n div 10) @ [digit (n mod 10)])"
  by pat_completeness auto
termination
  by (relation "measure id") auto

declare decimal.simps [simp del]

datatype number_text = Digits string | Exponential rat

definition fixed1 :: "rat \<Rightarrow> string" where
  "fixed1 x =
     (let n = nat \<lfloor>\<bar>x\<bar> * 10 + 1 / 2\<rfloor>;
          m = (if n < 10 then ''0'' @ decimal n else decimal n)
      in (if x < 0 then ''-'' else '''') @ butlast m @ ''.'' @ [last m])"

fun toFixed1 :: "jsnum \<Rightarrow> number_text" where
  "toFixed1 NaN = Digits ''NaN''"
| "toFixed1 Infinity = Digits ''Infinity''"
| "toFixed1 NegInfinity = Digits ''-Infinity''"
| "toFixed1 (Finite x) = (if 10 ^ 21 \<le> \<bar>x\<bar> then Exponential x else Digits (fixed1 x))"

text \<open>
  Property values of the object \<^verbatim>\<open>wordFreq\<close>. \<open>Obj s\<close> is an object or a function
  whose conversion to a primitive is the string \<open>s\<close>.
\<close>

datatype jsval = Undefined | Number nat | Str string | Obj string

text \<open>
  \<^verbatim>\<open>wordFreq\<close> is created by \<^verbatim>\<open>{}\<close>, so its prototype is \<^verbatim>\<open>Object.prototype\<close>, and a
  read of a key that is not an own property goes on there.
\<close>

definition object_prototype :: "string \<Rightarrow> jsval" where
  "object_prototype key =
     (if key = ''constructor'' then Obj ''function Object() { [native code] }''
      else if key = ''__proto__'' then Obj ''[object Object]''
      else if key \<in> set [''hasOwnProperty'', ''isPrototypeOf'', ''propertyIsEnumerable'',
                ''toLocaleString'', ''toString'', ''valueOf'', ''__defineGetter__'',
                ''__defineSetter__'', ''__lookupGetter__'', ''__lookupSetter__'']
      then Obj (''function '' @ key @ ''() { [native code] }'')
      else Undefined)"

text \<open>An object is the list of its own properties, in the order of their creation.\<close>

definition get_property :: "(string \<times> jsval) list \<Rightarrow> string \<Rightarrow> jsval" where
  "get_property obj key = (case map_of obj key of Some v \<Rightarrow> v | None \<Rightarrow> object_prototype key)"

text \<open>
  \<^verbatim>\<open>obj[key] = v\<close> for a primitive \<open>v\<close>: the key \<^verbatim>\<open>__proto__\<close> is an accessor of the
  prototype whose setter ignores a primitive; every other key becomes, or stays, an own
  property.
\<close>

definition set_property :: "(string \<times> jsval) list \<Rightarrow> string \<Rightarrow> jsval \<Rightarrow> (string \<times> jsval) list" where
  "set_property obj key v =
     (if key = ''__proto__'' then obj
      else if key \<in> fst ` set obj then map (\<lambda>(k, u). if k = key then (k, v) else (k, u)) obj
      else obj @ [(key, v)])"

text \<open>
  \<^verbatim>\<open>(v || 0) + 1\<close>: \<^verbatim>\<open>undefined\<close>, 0 and the empty string are falsy; \<^verbatim>\<open>+\<close> with a string or
  an object on the left concatenates.
\<close>

fun or_zero_plus_one :: "jsval \<Rightarrow> jsval" where
  "or_zero_plus_one Undefined = Number 1"
| "or_zero_plus_one (Number n) = Number (n + 1)"
| "or_zero_plus_one (Str s) = (if s = [] then Number 1 else Str (s @ ''1''))"
| "or_zero_plus_one (Obj s) = Str (s @ ''1'')"

text \<open>
  The sign of \<^verbatim>\<open>x - y\<close> as a comparator result. The strings that arise in \<^verbatim>\<open>wordFreq\<close>
  are not numerals, so a difference with one of them is \<^verbatim>\<open>NaN\<close>, which counts as 0.
\<close>

fun minus_sign :: "jsval \<Rightarrow> jsval \<Rightarrow> int" where
  "minus_sign (Number m) (Number n) = (if m < n then - 1 else if m = n then 0 else 1)"
| "minus_sign x y = 0"

subsection \<open>Keyword extractor: \<^verbatim>\<open>extractKeywords\<close>\<close>

definition stopWords :: "string list" where
  "stopWords =
    [''the'', ''be'', ''to'', ''of'', ''and'', ''a'', ''in'', ''that'', ''have'', ''i'',
     ''it'', ''for'', ''not'', ''on'', ''with'', ''he'', ''as'', ''you'', ''do'', ''at'',
     ''this'', ''but'', ''his'', ''by'', ''from'', ''they'', ''we'', ''say'', ''her'', ''she'',
     ''or'', ''an'', ''will'', ''my'', ''one'', ''all'', ''would'', ''there'', ''their'',
     ''what'', ''so'', ''up'', ''out'', ''if'', ''about'', ''who'', ''get'', ''which'', ''go'',
     ''me'', ''when'', ''make'', ''can'', ''like'', ''time'', ''no'', ''just'', ''him'', ''know'',
     ''take'', ''people'', ''into'', ''year'', ''your'', ''good'', ''some'', ''could'', ''them'',
     ''see'', ''other'', ''than'', ''then'', ''now'', ''look'', ''only'', ''come'', ''its'', ''over'',
     ''think'', ''also'', ''back'', ''after'', ''use'', ''two'', ''how'', ''our'', ''work'',
     ''first'', ''well'', ''way'', ''even'', ''new'', ''want'', ''because'', ''any'', ''these'',
     ''give'', ''day'', ''most'', ''us'', ''is'', ''are'', ''was'', ''were'', ''been'', ''has'',
     ''had'', ''does'', ''did'', ''am'', ''please'', ''thanks'', ''thank'', ''hello'', ''hi'',
     ''hey'', ''okay'', ''yes'', ''no'']"

text \<open>\<^verbatim>\<open>/^\d+$/.test(word)\<close>\<close>

definition pure_number :: "string \<Rightarrow> bool" where
  "pure_number word = (word \<noteq> [] \<and> list_all is_digit word)"

text \<open>The chain up to \<^verbatim>\<open>.filter\<close>: the words of the text that can be keywords.\<close>

definition keep_word :: "config \<Rightarrow> string \<Rightarrow> bool" where
  "keep_word cfg word =
     (int (length word) \<ge> MIN_KEYWORD_LENGTH cfg \<and> word \<notin> set stopWords \<and> \<not> pure_number word)"

definition candidate_words :: "config \<Rightarrow> string \<Rightarrow> string list" where
  "candidate_words cfg text =
     filter (keep_word cfg) (split_ws (replace_punctuation (toLowerCase text)))"

text \<open>\<^verbatim>\<open>wordFreq[word] = (wordFreq[word] || 0) + 1\<close>\<close>

definition count_word :: "(string \<times> jsval) list \<Rightarrow> string \<Rightarrow> (string \<times> jsval) list" where
  "count_word wordFreq word =
     set_property wordFreq word (or_zero_plus_one (get_property wordFreq word))"

text \<open>
  \<^verbatim>\<open>Object.entries\<close> lists the keys that are array indices first; such a key is a
  numeral, which the filter has removed, so the entries come in the order of creation.
\<close>

definition extractKeywords :: "config \<Rightarrow> string \<Rightarrow> string list" where
  "extractKeywords cfg text =
     (let words = candidate_words cfg text;
          wordFreq = foldl count_word [] words
      in map fst (slice 0 10 (js_sort (\<lambda>a b. minus_sign (snd b) (snd a)) wordFreq)))"

text \<open>
  The extractor in the words of the specification: the distinct words in the order of
  their first occurrence, sorted stably by descending frequency, cut after ten.
\<close>

definition first_occurrences :: "'a list \<Rightarrow> 'a list" where
  "first_occurrences ws = rev (remdups (rev ws))"

definition keywords_by_frequency :: "string list \<Rightarrow> string list" where
  "keywords_by_frequency ws =
     take 10 (sort_key (\<lambda>w. - int (count_list ws w)) (first_occurrences ws))"

text \<open>The characters a keyword is said to consist of: \<^verbatim>\<open>[a-z0-9_]\<close>.\<close>

definition keyword_char :: "char \<Rightarrow> bool" where
  "keyword_char c =
     (is_digit c \<or> code_unit c = 95 \<or> (97 \<le> code_unit c \<and> code_unit c \<le> 122))"

text \<open>
  For the proofs: the object \<^verbatim>\<open>wordFreq\<close> when every count is a number, and a count as
  a sort key.
\<close>

definition tally :: "string list \<Rightarrow> (string \<times> jsval) list" where
  "tally ws = map (\<lambda>w. (w, Number (count_list ws w))) (first_occurrences ws)"

fun descending :: "jsval \<Rightarrow> int" where
  "descending (Number n) = - int n"
| "descending v = 0"

subsection \<open>Relevance scorer: \<^verbatim>\<open>calculateRelevance\<close>\<close>

definition messageWords :: "config \<Rightarrow> string \<Rightarrow> string set" where
  "messageWords cfg messageText =
     set (filter (\<lambda>w. int (length w) \<ge> MIN_KEYWORD_LENGTH cfg)
            (split_ws (replace_punctuation messageText)))"

definition keyword_matches :: "config \<Rightarrow> message \<Rightarrow> string \<Rightarrow> bool" where
  "keyword_matches cfg msg keyword =
     (let messageText = toLowerCase (content msg)
      in keyword \<in> messageWords cfg messageText \<or> js_includes messageText keyword)"

definition calculateRelevance :: "config \<Rightarrow> message \<Rightarrow> string list \<Rightarrow> jsnum" where
  "calculateRelevance cfg msg keywords =
     (if length keywords = 0 then Finite 0
      else let matches = length (filter (keyword_matches cfg msg) keywords)
           in js_divide matches (length keywords))"

subsection \<open>Selector: \<^verbatim>\<open>selectRelevantMessages\<close>\<close>

record scored =
  message :: message
  score :: jsnum

definition selectRelevantMessages :: "config \<Rightarrow> message list \<Rightarrow> string \<Rightarrow> message list" where
  "selectRelevantMessages cfg conversationHistory currentPrompt =
     (if length conversationHistory = 0 then []
      else
        let keywords = extractKeywords cfg currentPrompt;
            recentMessages = slice_from (- MIN_RECENT_MESSAGES cfg) conversationHistory;
            olderMessages = slice 0 (- MIN_RECENT_MESSAGES cfg) conversationHistory
        in if length olderMessages = 0 then recentMessages
           else
             let scoredMessages =
                   map (\<lambda>msg. \<lparr>message = msg, score = calculateRelevance cfg msg keywords\<rparr>)
                     olderMessages;
                 relevantOlder =
                   map message
                     (slice 0 (MAX_RELEVANT_OLDER cfg)
                       (js_sort (\<lambda>a b. js_minus_sign (score b) (score a))
                         (filter (\<lambda>item. js_ge (score item) (RELEVANCE_THRESHOLD cfg))
                           scoredMessages)));
                 combined = relevantOlder @ recentMessages
             in js_sort (\<lambda>a b. timestamp a - timestamp b) combined)"

subsection \<open>Budgeter: \<^verbatim>\<open>truncateToCharLimit\<close>\<close>

text \<open>
  The loop \<^verbatim>\<open>for (let i = messages.length - 1; i >= 0; i--)\<close>. The second argument
  holds the messages still to visit, newest first; \<^verbatim>\<open>break\<close> returns the result so
  far, \<^verbatim>\<open>result.unshift(msg)\<close> puts the message in front.
\<close>

fun truncate_loop :: "int \<Rightarrow> message list \<Rightarrow> int \<Rightarrow> message list \<Rightarrow> message list" where
  "truncate_loop maxChars [] totalChars result = result"
| "truncate_loop maxChars (msg # todo) totalChars result =
     (let msgSize = int (length (content msg)) + 30 in
      if totalChars + msgSize > maxChars \<and> length result > 0 then result
      else truncate_loop maxChars todo (totalChars + msgSize) (msg # result))"

definition truncateToCharLimit :: "message list \<Rightarrow> int \<Rightarrow> message list" where
  "truncateToCharLimit messages maxChars = truncate_loop maxChars (rev messages) 0 []"

text \<open>The cost the budgeter charges for a list of messages: content length plus 30, each.\<close>

definition cost :: "message list \<Rightarrow> int" where
  "cost ms = (\<Sum>m\<leftarrow>ms. int (length (content m)) + 30)"

subsection \<open>Formatter: step 3 of \<^verbatim>\<open>buildOptimizedContext\<close>\<close>

text \<open>
  The context string, as its code units: the two markers, the arrow \<^verbatim>\<open>U+2192\<close> (8594) and
  the bullet \<^verbatim>\<open>U+2022\<close> (8226), lie outside the range of \<^typ>\<open>char\<close>.
\<close>

definition units :: "string \<Rightarrow> nat list" where
  "units s = map code_unit s"

definition format_line :: "config \<Rightarrow> nat \<Rightarrow> nat \<Rightarrow> message \<Rightarrow> nat list" where
  "format_line cfg len index msg =
     (let label = (if role msg = ''user'' then ''User'' else ''Assistant'');
          isRecent = (int index \<ge> int len - MIN_RECENT_MESSAGES cfg);
          prefix = (if isRecent then [8594] else [8226])
      in prefix @ units '' '' @ units label @ units '': '' @ units (content msg) @ units ''\<newline>'')"

definition format_context :: "config \<Rightarrow> message list \<Rightarrow> nat list" where
  "format_context cfg truncatedMessages =
     (if length truncatedMessages > 0
      then units ''Conversation context:\<newline>\<newline>''
           @ concat (map (\<lambda>(index, msg). format_line cfg (length truncatedMessages) index msg)
                       (enumerate 0 truncatedMessages))
           @ units ''\<newline>---\<newline>\<newline>''
      else [])"

subsection \<open>The pipeline on a store\<close>

text \<open>
  Arrays are objects: \<^verbatim>\<open>sort\<close> and \<^verbatim>\<open>unshift\<close> change the array they are called on, and
  the caller of the pipeline keeps a reference to the history it passes in. Here the
  arrays of messages live in a store and are passed by reference (a \<^typ>\<open>nat\<close>);
  \<^verbatim>\<open>slice\<close>, \<^verbatim>\<open>map\<close>, a spread and an array literal allocate a new array. The store also
  holds the module-level \<^verbatim>\<open>CONFIG\<close> object and what \<^verbatim>\<open>console.log\<close> has printed (as
  entries, not as text). Arrays of scored messages and of keywords never leave the
  function that makes them and stay values.
\<close>

datatype log_entry =
    Keywords_extracted "string list"
  | Selected_older nat
  | Truncated_at nat int
  | Context_size nat nat

record store =
  arrays :: "nat \<Rightarrow> message list"
  allocated :: nat
  CONFIG :: config
  console :: "log_entry list"

definition new_array :: "message list \<Rightarrow> store \<Rightarrow> nat \<times> store" where
  "new_array xs s =
     (allocated s, s\<lparr>arrays := (arrays s)(allocated s := xs), allocated := Suc (allocated s)\<rparr>)"

definition set_array :: "nat \<Rightarrow> message list \<Rightarrow> store \<Rightarrow> store" where
  "set_array r xs s = s\<lparr>arrays := (arrays s)(r := xs)\<rparr>"

definition console_log :: "log_entry \<Rightarrow> store \<Rightarrow> store" where
  "console_log e s = s\<lparr>console := console s @ [e]\<rparr>"

text \<open>\<^verbatim>\<open>selectRelevantMessages\<close> on the store.\<close>

definition selectRelevantMessages_st :: "nat \<Rightarrow> string \<Rightarrow> store \<Rightarrow> nat \<times> store" where
  "selectRelevantMessages_st conversationHistory currentPrompt s =
     (if length (arrays s conversationHistory) = 0 then new_array [] s
      else
        let keywords = extractKeywords (CONFIG s) currentPrompt;
            s1 = console_log (Keywords_extracted keywords) s;
            (recentMessages, s2) =
               new_array (slice_from (- MIN_RECENT_MESSAGES (CONFIG s1))
                            (arrays s1 conversationHistory)) s1;
            (olderMessages, s3) =
               new_array (slice 0 (- MIN_RECENT_MESSAGES (CONFIG s2))
                            (arrays s2 conversationHistory)) s2
        in if length (arrays s3 olderMessages) = 0 then (recentMessages, s3)
           else
             let scoredMessages =
                   map (\<lambda>msg. \<lparr>message = msg, score = calculateRelevance (CONFIG s3) msg keywords\<rparr>)
                     (arrays s3 olderMessages);
                 relevantOlder =
                   map message
                     (slice 0 (MAX_RELEVANT_OLDER (CONFIG s3))
                       (js_sort (\<lambda>a b. js_minus_sign (score b) (score a))
                         (filter (\<lambda>item. js_ge (score item) (RELEVANCE_THRESHOLD (CONFIG s3)))
                           scoredMessages)));
                 s4 = console_log (Selected_older (length relevantOlder)) s3;
                 (combined, s5) = new_array (relevantOlder @ arrays s4 recentMessages) s4;
                 s6 = set_array combined
                        (js_sort (\<lambda>a b. timestamp a - timestamp b) (arrays s5 combined)) s5
             in (combined, s6))"

text \<open>
  \<^verbatim>\<open>truncateToCharLimit\<close> on the store. The third argument of the loop is \<open>i + 1\<close> for
  the loop variable \<open>i\<close>, and \<^verbatim>\<open>messages[i]\<close> is read from the store in each iteration.
\<close>

fun truncate_loop_st :: "int \<Rightarrow> nat \<Rightarrow> nat \<Rightarrow> int \<Rightarrow> nat \<Rightarrow> store \<Rightarrow> store" where
  "truncate_loop_st maxChars messages 0 totalChars result s = s"
| "truncate_loop_st maxChars messages (Suc i) totalChars result s =
     (let msg = arrays s messages ! i;
          msgSize = int (length (content msg)) + 30
      in if totalChars + msgSize > maxChars \<and> length (arrays s result) > 0
         then console_log (Truncated_at (length (arrays s result)) totalChars) s
         else truncate_loop_st maxChars messages i (totalChars + msgSize) result
                (set_array result (msg # arrays s result) s))"

definition truncateToCharLimit_st :: "nat \<Rightarrow> int \<Rightarrow> store \<Rightarrow> nat \<times> store" where
  "truncateToCharLimit_st messages maxChars s =
     (let (result, s1) = new_array [] s;
          s2 = truncate_loop_st maxChars messages (length (arrays s1 messages)) 0 result s1
      in (result, s2))"

subsection \<open>\<^verbatim>\<open>buildOptimizedContext\<close> and \<^verbatim>\<open>getContextStats\<close>\<close>

definition buildOptimizedContext :: "nat \<Rightarrow> string \<Rightarrow> store \<Rightarrow> nat list \<times> store" where
  "buildOptimizedContext conversationHistory currentPrompt s =
     (let (relevantMessages, s1) = selectRelevantMessages_st conversationHistory currentPrompt s;
          (truncatedMessages, s2) =
             truncateToCharLimit_st relevantMessages (MAX_CONTEXT_CHARS (CONFIG s1)) s1;
          s3 = console_log (Context_size (length (arrays s2 truncatedMessages))
                              (length (arrays s2 conversationHistory))) s2
      in (format_context (CONFIG s3) (arrays s3 truncatedMessages), s3))"

record stats =
  totalMessages :: nat
  relevantMessages :: nat
  includedMessages :: nat
  totalChars :: nat
  utilizationPercent :: number_text

definition getContextStats :: "nat \<Rightarrow> string \<Rightarrow> store \<Rightarrow> stats \<times> store" where
  "getContextStats conversationHistory currentPrompt s =
     (let (relevant, s1) = selectRelevantMessages_st conversationHistory currentPrompt s;
          (truncated, s2) = truncateToCharLimit_st relevant (MAX_CONTEXT_CHARS (CONFIG s1)) s1;
          chars = foldl (\<lambda>sum msg. sum + length (content msg)) 0 (arrays s2 truncated)
      in (\<lparr>totalMessages = length (arrays s2 conversationHistory),
           relevantMessages = length (arrays s2 relevant),
           includedMessages = length (arrays s2 truncated),
           totalChars = chars,
           utilizationPercent =
             toFixed1 (js_times (js_over chars (MAX_CONTEXT_CHARS (CONFIG s2))) 100)\<rparr>, s2))"

text \<open>
  What a call may do to the store it starts from: allocate, and write what it has
  allocated. The settings and every array that existed before are as they were.
\<close>

definition preserves :: "store \<Rightarrow> store \<Rightarrow> bool" where
  "preserves s s' =
     (CONFIG s' = CONFIG s \<and> allocated s \<le> allocated s' \<and>
      (\<forall>r. r < allocated s \<longrightarrow> arrays s' r = arrays s r))"

subsection \<open>Configuration: \<^verbatim>\<open>createConfig\<close>\<close>

text \<open>
  \<^verbatim>\<open>parseInt(v) || d\<close> and \<^verbatim>\<open>parseFloat(v) || d\<close>. The two parsers are built-ins of the
  language and are parameters here: they take the value of the variable (\<open>None\<close> is
  \<^verbatim>\<open>undefined\<close>, the variable is not set) and return a number, or \<open>None\<close> for \<^verbatim>\<open>NaN\<close>.
  \<^verbatim>\<open>||\<close> takes its right operand when the left one is falsy, which for a number means
  \<^verbatim>\<open>NaN\<close> or zero. (An infinite result, which a parser gives for a numeral beyond the
  range of a double, is truthy as well; the types of the settings leave it out.)
\<close>

definition or_default :: "'a::zero option \<Rightarrow> 'a \<Rightarrow> 'a" where
  "or_default parsed d = (case parsed of None \<Rightarrow> d | Some v \<Rightarrow> if v = 0 then d else v)"

definition createConfig ::
  "(string option \<Rightarrow> int option) \<Rightarrow> (string option \<Rightarrow> rat option) \<Rightarrow> (string \<Rightarrow> string option)
     \<Rightarrow> config" where
  "createConfig parseInt parseFloat env =
     \<lparr>MAX_CONTEXT_CHARS = or_default (parseInt (env ''MAX_CONTEXT_CHARS'')) 4000,
      MIN_RECENT_MESSAGES = or_default (parseInt (env ''MIN_RECENT_MESSAGES'')) 3,
      MAX_RELEVANT_OLDER = or_default (parseInt (env ''MAX_RELEVANT_OLDER'')) 3,
      MIN_KEYWORD_LENGTH = or_default (parseInt (env ''MIN_KEYWORD_LENGTH'')) 4,
      RELEVANCE_THRESHOLD = or_default (parseFloat (env ''RELEVANCE_THRESHOLD'')) (3 / 10)\<rparr>"

text \<open>\<^verbatim>\<open>CONFIG\<close> in a process whose environment sets none of the five variables.\<close>

definition default_config :: config where
  "default_config = createConfig (\<lambda>v. None) (\<lambda>v. None) (\<lambda>name. None)"

subsection \<open>Example data\<close>

text \<open>
  A history of five messages in the order of the store, and the same messages in another
  order, for the examples below.
\<close>

definition pizza_history :: "message list" where
  "pizza_history =
     [\<lparr>role = ''user'', content = ''Any good pizza recipes?'', timestamp = 1000\<rparr>,
      \<lparr>role = ''assistant'', content = ''A classic pizza dough recipe needs flour and yeast.'',
         timestamp = 2000\<rparr>,
      \<lparr>role = ''user'', content = ''How long should it rest?'', timestamp = 3000\<rparr>,
      \<lparr>role = ''assistant'', content = ''About one hour.'', timestamp = 4000\<rparr>,
      \<lparr>role = ''user'', content = ''Great, thanks!'', timestamp = 5000\<rparr>]"

definition shuffled_history :: "message list" where
  "shuffled_history =
     [\<lparr>role = ''user'', content = ''How long should it rest?'', timestamp = 3000\<rparr>,
      \<lparr>role = ''user'', content = ''Any good pizza recipes?'', timestamp = 1000\<rparr>,
      \<lparr>role = ''user'', content = ''Great, thanks!'', timestamp = 5000\<rparr>,
      \<lparr>role = ''assistant'', content = ''A classic pizza dough recipe needs flour and yeast.'',
         timestamp = 2000\<rparr>,
      \<lparr>role = ''assistant'', content = ''About one hour.'', timestamp = 4000\<rparr>]"

text \<open>A store that holds the first history at reference 0, with the default settings.\<close>

definition example_store :: store where
  "example_store =
     \<lparr>arrays = (\<lambda>r. [])(0 := pizza_history), allocated = 1, CONFIG = default_config,
      console = []\<rparr>"

section \<open>Properties\<close>

subsection \<open>Slices and sorting\<close>

text \<open>
  The two slices of the selector cut the history at one index: \<open>slice 0 (- n)\<close> is what
  lies before it and \<open>slice_from (- n)\<close> the rest, for every integer \<open>n\<close>.
\<close>

lemma older_take:
  "slice 0 (- n) xs = take (relative_index (- n) (length xs)) xs"
  by (simp add: slice_def relative_index_def Let_def)

lemma recent_drop:
  "slice_from (- n) xs = drop (relative_index (- n) (length xs)) xs"
  by (simp add: slice_from_def)

lemma older_recent: "slice 0 (- n) xs @ slice_from (- n) xs = xs"
  by (simp add: older_take recent_drop)

lemma relative_index_window:
  "int len \<le> n \<Longrightarrow> relative_index (- n) len = 0"
  by (auto simp: relative_index_def)

lemma relative_index_recent:
  "1 \<le> n \<Longrightarrow> relative_index (- n) len = len - nat n"
  by (auto simp: relative_index_def)

lemma slice_0_take: "slice 0 k xs = take (relative_index k (length xs)) xs"
  by (simp add: slice_def relative_index_def Let_def)

lemma js_sort_Nil: "js_sort cmp [] = []"
  by (simp add: js_sort_def)

lemma slice_Nil: "slice a b [] = []"
  by (simp add: slice_def)

text \<open>
  \<open>js_sort\<close> permutes its input, and with a comparator that subtracts integer keys it
  is the stable sort by that key.
\<close>

lemma mset_insert_by: "mset (insert_by cmp x ys) = add_mset x (mset ys)"
  by (induction ys) simp_all

lemma mset_js_sort: "mset (js_sort cmp xs) = mset xs"
  by (induction xs) (simp_all add: js_sort_def mset_insert_by)

lemma insert_by_key:
  fixes f :: "'a \<Rightarrow> int"
  shows "insert_by (\<lambda>a b. f a - f b) x ys = insort_key f x ys"
  by (induction ys) simp_all

lemma js_sort_key:
  fixes f :: "'a \<Rightarrow> int"
  shows "js_sort (\<lambda>a b. f a - f b) xs = sort_key f xs"
  by (induction xs) (simp_all add: js_sort_def insert_by_key)

lemma mset_take_drop_sum: "mset (take n xs) + mset (drop n xs) = mset xs"
  by (metis append_take_drop_id mset_append)

lemma mset_take_sub: "mset (take n xs) \<subseteq># mset xs"
  using mset_subset_eq_add_left [of "mset (take n xs)" "mset (drop n xs)"]
  by (simp only: mset_take_drop_sum)

lemma mset_drop_sub: "mset (drop n xs) \<subseteq># mset xs"
  using mset_subset_eq_add_right [of "mset (drop n xs)" "mset (take n xs)"]
  by (simp only: mset_take_drop_sum)

lemma default_config_simps:
  "MAX_CONTEXT_CHARS default_config = 4000"
  "MIN_RECENT_MESSAGES default_config = 3"
  "MAX_RELEVANT_OLDER default_config = 3"
  "MIN_KEYWORD_LENGTH default_config = 4"
  "RELEVANCE_THRESHOLD default_config = 3 / 10"
  by (simp_all add: default_config_def createConfig_def or_default_def)

subsection \<open>The relevance scorer\<close>

lemma matches_le: "length (filter P xs) \<le> length xs"
  by simp

lemma score_finite:
  "calculateRelevance cfg msg keywords =
     Finite (of_nat (length (filter (keyword_matches cfg msg) keywords)) / of_nat (length keywords))"
  by (simp add: calculateRelevance_def js_divide_def Let_def)

lemma ratio_step:
  fixes m k :: nat
  assumes "m \<le> k"
  shows "(of_nat m :: rat) / of_nat k \<le> of_nat (Suc m) / of_nat (Suc k)"
proof (cases "k = 0")
  case True
  then show ?thesis by simp
next
  case False
  have "m * Suc k \<le> Suc m * k"
    using assms by simp
  then have "(of_nat (m * Suc k) :: rat) \<le> of_nat (Suc m * k)"
    by (rule of_nat_mono)
  then have "(of_nat m :: rat) * of_nat (Suc k) \<le> of_nat (Suc m) * of_nat k"
    by (simp only: of_nat_mult)
  with False show ?thesis
    by (simp add: divide_simps)
qed

text \<open>
  Claim C8. The scorer always returns a finite number, never \<^verbatim>\<open>NaN\<close> or \<^verbatim>\<open>Infinity\<close>: with
  no keywords it returns 0 without dividing, and otherwise the number of matching keywords
  divided by the number of keywords, which lies between 0 and 1.
\<close>

theorem calculateRelevance_total:
  "(keywords = [] \<longrightarrow> calculateRelevance cfg msg keywords = Finite 0) \<and>
   (keywords \<noteq> [] \<longrightarrow>
      calculateRelevance cfg msg keywords =
        Finite (of_nat (length (filter (keyword_matches cfg msg) keywords))
                  / of_nat (length keywords))) \<and>
   (\<exists>q. calculateRelevance cfg msg keywords = Finite q \<and> 0 \<le> q \<and> q \<le> 1)"
proof -
  let ?m = "length (filter (keyword_matches cfg msg) keywords)"
  let ?k = "length keywords"
  have "(of_nat ?m :: rat) / of_nat ?k \<le> 1" if "keywords \<noteq> []"
    using that by (simp add: divide_le_eq_1)
  then show ?thesis
    by (auto simp: calculateRelevance_def js_divide_def Let_def)
qed

theorem calculateRelevance_total_witness:
  "[''pizza'', ''dough''] \<noteq> [] \<and>
   calculateRelevance default_config
     \<lparr>role = ''user'', content = ''I love Pizza!'', timestamp = 1\<rparr> [''pizza'', ''dough'']
     = Finite (1 / 2) \<and>
   [] = ([] :: string list) \<and>
   calculateRelevance default_config
     \<lparr>role = ''user'', content = ''I love Pizza!'', timestamp = 1\<rparr> [] = Finite 0"
proof -
  have "length (filter (keyword_matches default_config
          \<lparr>role = ''user'', content = ''I love Pizza!'', timestamp = 1\<rparr>) [''pizza'', ''dough'']) = 1"
    by code_simp
  then show ?thesis
    using calculateRelevance_total
      [of "[''pizza'', ''dough'']" default_config
          "\<lparr>role = ''user'', content = ''I love Pizza!'', timestamp = 1\<rparr>"]
      calculateRelevance_total
      [of "[]" default_config
          "\<lparr>role = ''user'', content = ''I love Pizza!'', timestamp = 1\<rparr>"]
    by simp
qed

text \<open>
  Claim C6. Adding one keyword that matches the message, at the end of the keyword list or
  anywhere in it, never lowers the score of the message: with \<open>m\<close> matches among \<open>k\<close>
  keywords, \<open>m / k \<le> (m + 1) / (k + 1)\<close>.
\<close>

theorem calculateRelevance_monotone:
  assumes "keyword_matches cfg msg keyword"
  shows "\<exists>old new.
           calculateRelevance cfg msg (before @ after) = Finite old \<and>
           calculateRelevance cfg msg (before @ keyword # after) = Finite new \<and>
           old \<le> new"
proof -
  let ?m = "length (filter (keyword_matches cfg msg) (before @ after))"
  let ?k = "length (before @ after)"
  have more: "length (filter (keyword_matches cfg msg) (before @ keyword # after)) = Suc ?m"
    using assms by simp
  have longer: "length (before @ keyword # after) = Suc ?k"
    by simp
  have "?m \<le> ?k"
    by (rule matches_le)
  then have "(of_nat ?m :: rat) / of_nat ?k \<le> of_nat (Suc ?m) / of_nat (Suc ?k)"
    by (rule ratio_step)
  then show ?thesis
    unfolding score_finite more longer by blast
qed

theorem calculateRelevance_monotone_witness:
  "keyword_matches default_config
     \<lparr>role = ''user'', content = ''I love Pizza!'', timestamp = 1\<rparr> ''pizza'' \<and>
   (\<exists>old new.
      calculateRelevance default_config
        \<lparr>role = ''user'', content = ''I love Pizza!'', timestamp = 1\<rparr> ([''dough''] @ []) = Finite old \<and>
      calculateRelevance default_config
        \<lparr>role = ''user'', content = ''I love Pizza!'', timestamp = 1\<rparr> ([''dough''] @ ''pizza'' # [])
        = Finite new \<and>
      old \<le> new)"
proof -
  have m: "keyword_matches default_config
     \<lparr>role = ''user'', content = ''I love Pizza!'', timestamp = 1\<rparr> ''pizza''"
    by code_simp
  show ?thesis
    using m calculateRelevance_monotone [OF m, of "[''dough'']" "[]"] by blast
qed

subsection \<open>The selector\<close>

text \<open>The older messages that are kept are some of the older messages.\<close>

lemma relevant_older_sub:
  "mset (map message (slice 0 k (js_sort cmp (filter P
      (map (\<lambda>msg. \<lparr>message = msg, score = f msg\<rparr>) older)))))
   \<subseteq># mset older"
proof -
  let ?scored = "map (\<lambda>msg. \<lparr>message = msg, score = f msg\<rparr>) older"
  have "mset (slice 0 k (js_sort cmp (filter P ?scored))) \<subseteq># mset (js_sort cmp (filter P ?scored))"
    unfolding slice_0_take by (rule mset_take_sub)
  also have "\<dots> = filter_mset P (mset ?scored)"
    by (simp add: mset_js_sort)
  also have "\<dots> \<subseteq># mset ?scored"
    by (rule multiset_filter_subset)
  finally have "image_mset message (mset (slice 0 k (js_sort cmp (filter P ?scored))))
      \<subseteq># image_mset message (mset ?scored)"
    by (rule image_mset_subseteq_mono)
  moreover have "image_mset message (mset ?scored) = mset older"
    by (simp add: multiset.map_comp comp_def)
  ultimately show ?thesis by simp
qed

lemma select_cases:
  "selectRelevantMessages cfg hist prompt =
     (if hist = [] then []
      else if slice 0 (- MIN_RECENT_MESSAGES cfg) hist = []
           then slice_from (- MIN_RECENT_MESSAGES cfg) hist
      else sort_key timestamp
             (map message (slice 0 (MAX_RELEVANT_OLDER cfg)
                (js_sort (\<lambda>a b. js_minus_sign (score b) (score a))
                  (filter (\<lambda>item. js_ge (score item) (RELEVANCE_THRESHOLD cfg))
                    (map (\<lambda>msg. \<lparr>message = msg,
                            score = calculateRelevance cfg msg (extractKeywords cfg prompt)\<rparr>)
                       (slice 0 (- MIN_RECENT_MESSAGES cfg) hist)))))
              @ slice_from (- MIN_RECENT_MESSAGES cfg) hist))"
  by (simp add: selectRelevantMessages_def Let_def js_sort_key)

text \<open>A history no longer than the recent window has no older part.\<close>

lemma select_short:
  assumes "int (length hist) \<le> MIN_RECENT_MESSAGES cfg"
  shows "selectRelevantMessages cfg hist prompt = hist"
  using assms
  by (simp add: selectRelevantMessages_def older_take recent_drop relative_index_window Let_def)

text \<open>Without keywords every score is 0, and a positive threshold keeps nothing.\<close>

lemma no_keywords_none_kept:
  assumes "0 < t"
  shows "filter (\<lambda>item. js_ge (score item) t)
           (map (\<lambda>msg. \<lparr>message = msg, score = calculateRelevance cfg msg []\<rparr>) older) = []"
  using assms by (induction older) (simp_all add: calculateRelevance_def)

text \<open>
  Claim C7. For a history with at most \<^verbatim>\<open>MIN_RECENT_MESSAGES\<close> entries, the empty history
  included, the selector returns the history itself, in its order, for every prompt.
\<close>

theorem selectRelevantMessages_short:
  assumes "int (length conversationHistory) \<le> MIN_RECENT_MESSAGES cfg"
  shows "selectRelevantMessages cfg conversationHistory currentPrompt = conversationHistory"
  using assms by (rule select_short)

theorem selectRelevantMessages_short_witness:
  "int (length [\<lparr>role = ''user'', content = ''pizza dough'', timestamp = 2\<rparr>,
                \<lparr>role = ''assistant'', content = ''use more flour'', timestamp = 1\<rparr>])
     \<le> MIN_RECENT_MESSAGES default_config \<and>
   selectRelevantMessages default_config
     [\<lparr>role = ''user'', content = ''pizza dough'', timestamp = 2\<rparr>,
      \<lparr>role = ''assistant'', content = ''use more flour'', timestamp = 1\<rparr>] ''pizza recipe''
   = [\<lparr>role = ''user'', content = ''pizza dough'', timestamp = 2\<rparr>,
      \<lparr>role = ''assistant'', content = ''use more flour'', timestamp = 1\<rparr>]"
  using selectRelevantMessages_short
    [of "[\<lparr>role = ''user'', content = ''pizza dough'', timestamp = 2\<rparr>,
          \<lparr>role = ''assistant'', content = ''use more flour'', timestamp = 1\<rparr>]"
        default_config "''pizza recipe''"]
  by (simp add: default_config_simps)

text \<open>
  Claim C2, as stated, fails: a history no longer than the recent window is returned as it
  is, so when its timestamps are out of order the output is out of order as well.
\<close>

theorem selectRelevantMessages_unsorted_counterexample:
  "\<not> sorted (map timestamp (selectRelevantMessages default_config
     [\<lparr>role = ''user'', content = ''pizza dough'', timestamp = 2\<rparr>,
      \<lparr>role = ''assistant'', content = ''use more flour'', timestamp = 1\<rparr>] ''pizza recipe''))"
  by (simp add: selectRelevantMessages_def slice_def slice_from_def relative_index_def
      default_config_simps Let_def)

text \<open>
  Claim C2, amended. The output of the selector never contains more copies of a message
  than the history does (each position of the history contributes at most once), so a
  history without repetitions gives an output without repetitions. The output is in
  ascending timestamp order whenever the history has an older part, that is, entries
  before the recent window, or is itself in ascending timestamp order.
\<close>

theorem selectRelevantMessages_chronological:
  "mset (selectRelevantMessages cfg hist prompt) \<subseteq># mset hist \<and>
   (distinct hist \<longrightarrow> distinct (selectRelevantMessages cfg hist prompt)) \<and>
   (slice 0 (- MIN_RECENT_MESSAGES cfg) hist \<noteq> [] \<or> sorted (map timestamp hist) \<longrightarrow>
      sorted (map timestamp (selectRelevantMessages cfg hist prompt)))"
proof -
  let ?n = "MIN_RECENT_MESSAGES cfg"
  let ?out = "selectRelevantMessages cfg hist prompt"
  have sub: "mset ?out \<subseteq># mset hist"
  proof (cases "hist = [] \<or> slice 0 (- ?n) hist = []")
    case True
    then show ?thesis
      by (auto simp: select_cases recent_drop mset_drop_sub)
  next
    case False
    let ?kept = "map message (slice 0 (MAX_RELEVANT_OLDER cfg)
                (js_sort (\<lambda>a b. js_minus_sign (score b) (score a))
                  (filter (\<lambda>item. js_ge (score item) (RELEVANCE_THRESHOLD cfg))
                    (map (\<lambda>msg. \<lparr>message = msg,
                            score = calculateRelevance cfg msg (extractKeywords cfg prompt)\<rparr>)
                       (slice 0 (- ?n) hist)))))"
    have "mset ?out = mset ?kept + mset (slice_from (- ?n) hist)"
      using False by (simp add: select_cases)
    also have "\<dots> \<subseteq># mset (slice 0 (- ?n) hist) + mset (slice_from (- ?n) hist)"
      by (intro subset_mset.add_mono relevant_older_sub subset_mset.order_refl)
    also have "\<dots> = mset hist"
      by (simp only: mset_append [symmetric] older_recent)
    finally show ?thesis .
  qed
  have "distinct ?out" if "distinct hist"
  proof -
    have "count (mset ?out) a \<le> 1" for a
    proof -
      have "count (mset ?out) a \<le> count (mset hist) a"
        using sub by (rule mset_subset_eq_count)
      also have "\<dots> \<le> 1"
        using that by (simp add: distinct_count_atmost_1)
      finally show ?thesis .
    qed
    then show ?thesis
      unfolding distinct_count_atmost_1 [of ?out]
      by (metis count_greater_zero_iff count_mset_0_iff le_antisym less_one linorder_not_le not_in_iff set_mset_mset)
  qed
  moreover have "sorted (map timestamp ?out)"
    if "slice 0 (- ?n) hist \<noteq> [] \<or> sorted (map timestamp hist)"
  proof (cases "hist = [] \<or> slice 0 (- ?n) hist = []")
    case True
    with that have "sorted (map timestamp hist)" by auto
    then have "sorted (map timestamp (drop (relative_index (- ?n) (length hist)) hist))"
      by (simp add: drop_map [symmetric] del: drop_map)
    with True show ?thesis
      by (auto simp: select_cases recent_drop)
  next
    case False
    then show ?thesis
      by (simp add: select_cases del: map_append)
  qed
  ultimately show ?thesis
    using sub by blast
qed

theorem selectRelevantMessages_chronological_witness:
  "distinct shuffled_history \<and>
   slice 0 (- MIN_RECENT_MESSAGES default_config) shuffled_history \<noteq> [] \<and>
   mset (selectRelevantMessages default_config shuffled_history ''what's a good pizza dough recipe'')
     \<subseteq># mset shuffled_history \<and>
   distinct (selectRelevantMessages default_config shuffled_history ''what's a good pizza dough recipe'') \<and>
   sorted (map timestamp
     (selectRelevantMessages default_config shuffled_history ''what's a good pizza dough recipe''))"
proof -
  have d: "distinct shuffled_history"
    by (simp add: shuffled_history_def)
  have o: "slice 0 (- MIN_RECENT_MESSAGES default_config) shuffled_history \<noteq> []"
    by (simp add: shuffled_history_def default_config_simps slice_def relative_index_def)
  show ?thesis
    using d o selectRelevantMessages_chronological
      [of default_config shuffled_history "''what's a good pizza dough recipe''"]
    by blast
qed

text \<open>
  Claim C4, as stated, fails for a threshold of 0, which every score reaches, so older
  messages are selected although no keyword was extracted; it also fails for a recent
  window of 0, where \<^verbatim>\<open>slice(-0)\<close> is the whole history.
\<close>

theorem selectRelevantMessages_no_keywords_counterexample:
  "extractKeywords (default_config\<lparr>RELEVANCE_THRESHOLD := 0\<rparr>) ''hi to you'' = [] \<and>
   selectRelevantMessages (default_config\<lparr>RELEVANCE_THRESHOLD := 0\<rparr>) pizza_history ''hi to you''
     = pizza_history \<and>
   pizza_history \<noteq> drop (length pizza_history - 3) pizza_history \<and>
   extractKeywords (default_config\<lparr>MIN_RECENT_MESSAGES := 0\<rparr>) ''hi to you'' = [] \<and>
   selectRelevantMessages (default_config\<lparr>MIN_RECENT_MESSAGES := 0\<rparr>) pizza_history ''hi to you''
     = pizza_history \<and>
   pizza_history \<noteq> drop (length pizza_history - 0) pizza_history"
  by code_simp

text \<open>
  Claim C4, amended. When no keyword is extracted from the prompt, the threshold is
  positive and the recent window has at least one entry, the selector returns the last
  \<^verbatim>\<open>MIN_RECENT_MESSAGES\<close> entries of the history and no older message, whatever the older
  messages contain: the history itself when it is no longer than the window, the window
  sorted stably by timestamp otherwise, which is the window unchanged when the history is
  in ascending timestamp order.
\<close>

theorem selectRelevantMessages_no_keywords:
  assumes "extractKeywords cfg prompt = []"
    and "0 < RELEVANCE_THRESHOLD cfg"
    and "1 \<le> MIN_RECENT_MESSAGES cfg"
  shows "selectRelevantMessages cfg hist prompt =
           (if int (length hist) \<le> MIN_RECENT_MESSAGES cfg then hist
            else sort_key timestamp (drop (length hist - nat (MIN_RECENT_MESSAGES cfg)) hist)) \<and>
         (sorted (map timestamp hist) \<longrightarrow>
            selectRelevantMessages cfg hist prompt =
              drop (length hist - nat (MIN_RECENT_MESSAGES cfg)) hist)"
proof -
  let ?n = "MIN_RECENT_MESSAGES cfg"
  let ?window = "drop (length hist - nat ?n) hist"
  have first: "selectRelevantMessages cfg hist prompt =
           (if int (length hist) \<le> ?n then hist else sort_key timestamp ?window)"
  proof (cases "int (length hist) \<le> ?n")
    case True
    then show ?thesis
      by (simp add: select_short)
  next
    case False
    then have "hist \<noteq> []" and "take (length hist - nat ?n) hist \<noteq> []"
      using assms(3) by auto
    then show ?thesis
      using False assms
      by (simp add: select_cases older_take recent_drop relative_index_recent
          no_keywords_none_kept js_sort_Nil slice_Nil)
  qed
  moreover have "sort_key timestamp ?window = ?window" if "sorted (map timestamp hist)"
  proof -
    have "sorted (map timestamp ?window)"
      using that by (simp add: drop_map [symmetric] del: drop_map)
    then show ?thesis
      by (rule sort_key_id_if_sorted)
  qed
  moreover have "?window = hist" if "int (length hist) \<le> ?n"
    using that by simp
  ultimately show ?thesis
    by auto
qed

theorem selectRelevantMessages_no_keywords_witness:
  "extractKeywords default_config ''hi to you'' = [] \<and>
   0 < RELEVANCE_THRESHOLD default_config \<and>
   1 \<le> MIN_RECENT_MESSAGES default_config \<and>
   sorted (map timestamp pizza_history) \<and>
   selectRelevantMessages default_config pizza_history ''hi to you'' =
     [\<lparr>role = ''user'', content = ''How long should it rest?'', timestamp = 3000\<rparr>,
      \<lparr>role = ''assistant'', content = ''About one hour.'', timestamp = 4000\<rparr>,
      \<lparr>role = ''user'', content = ''Great, thanks!'', timestamp = 5000\<rparr>]"
proof -
  have k: "extractKeywords default_config ''hi to you'' = []"
    by code_simp
  have t: "0 < RELEVANCE_THRESHOLD default_config" and n: "1 \<le> MIN_RECENT_MESSAGES default_config"
    by (simp_all add: default_config_simps)
  have c: "sorted (map timestamp pizza_history)"
    by (simp add: pizza_history_def)
  show ?thesis
    using k t n c selectRelevantMessages_no_keywords [OF k t n, of pizza_history]
    by (simp add: default_config_simps pizza_history_def)
qed

subsection \<open>The keyword extractor\<close>

text \<open>
  Claim C5 fails on the code. \<^verbatim>\<open>wordFreq\<close> inherits \<^verbatim>\<open>constructor\<close> from
  \<^verbatim>\<open>Object.prototype\<close>, so the count of that word is a string, never a number, and
  the comparator gives \<^verbatim>\<open>NaN\<close> for it: the word is not moved by the sort. In the text below
  it occurs twice and \<^verbatim>\<open>call\<close> once, and \<^verbatim>\<open>call\<close> comes first in the result.
\<close>

theorem extractKeywords_constructor:
  "candidate_words default_config ''call constructor constructor''
     = [''call'', ''constructor'', ''constructor''] \<and>
   extractKeywords default_config ''call constructor constructor'' = [''call'', ''constructor'']"
  by code_simp

text \<open>
  Apart from that, the extractor does what the claim says. The words that reach the
  counting consist of lower-case letters, digits and underscores, so among the
  properties of the prototype only \<^verbatim>\<open>constructor\<close> and \<^verbatim>\<open>__proto__\<close> can be hit.
\<close>

lemma lower_char_not_capital:
  "\<not> (65 \<le> code_unit (lower_char c) \<and> code_unit (lower_char c) \<le> 90)"
  by (auto simp: lower_char_def code_unit_def)

lemma split_ws_nonempty: "split_ws s \<noteq> []"
  by (induction s rule: split_ws.induct) (auto split: list.splits)

lemma split_ws_chars:
  "piece \<in> set (split_ws s) \<Longrightarrow> c \<in> set piece \<Longrightarrow> c \<in> set s \<and> \<not> is_space c"
proof (induction s arbitrary: piece rule: split_ws.induct)
  case 1
  then show ?case by simp
next
  case (2 d ds)
  show ?case
  proof (cases "is_space d")
    case True
    with "2.prems" have "piece \<in> set (split_ws (dropWhile is_space ds))"
      by auto
    with "2.IH"(1) [OF True] "2.prems"(2) have "c \<in> set (dropWhile is_space ds) \<and> \<not> is_space c"
      by blast
    then show ?thesis
      using set_dropWhileD by fastforce
  next
    case False
    obtain p ps where sp: "split_ws ds = p # ps"
      using split_ws_nonempty [of ds] by (cases "split_ws ds") auto
    with False "2.prems" have "piece = d # p \<or> piece \<in> set ps"
      by auto
    then show ?thesis
    proof
      assume "piece = d # p"
      with "2.prems"(2) have "c = d \<or> c \<in> set p" by auto
      then show ?thesis
        using False "2.IH"(2) [OF False, of p] sp by auto
    next
      assume "piece \<in> set ps"
      then show ?thesis
        using "2.IH"(2) [OF False, of piece] sp "2.prems"(2) by auto
    qed
  qed
qed

lemma candidate_word_chars:
  assumes "w \<in> set (candidate_words cfg text)" and "c \<in> set w"
  shows "keyword_char c"
proof -
  from assms have "w \<in> set (split_ws (replace_punctuation (toLowerCase text)))"
    by (simp add: candidate_words_def)
  with assms(2) have in_text: "c \<in> set (replace_punctuation (toLowerCase text))"
    and no_space: "\<not> is_space c"
    using split_ws_chars by blast+
  have blank: "is_space (CHR '' '')"
    by (simp add: is_space_def code_unit_def)
  from in_text obtain d where d: "d \<in> set text"
      "c = (if is_word_char (lower_char d) \<or> is_space (lower_char d) then lower_char d else CHR '' '')"
    by (auto simp: replace_punctuation_def toLowerCase_def)
  with no_space blank have "c = lower_char d" and "is_word_char c"
    by (auto split: if_splits)
  then show ?thesis
    using lower_char_not_capital [of d]
    by (auto simp: keyword_char_def is_word_char_def)
qed

lemma capital_in_name:
  "v \<in> set [''hasOwnProperty'', ''isPrototypeOf'', ''propertyIsEnumerable'',
              ''toLocaleString'', ''toString'', ''valueOf'', ''__defineGetter__'',
              ''__defineSetter__'', ''__lookupGetter__'', ''__lookupSetter__'']
   \<Longrightarrow> \<not> list_all keyword_char v"
  by (auto simp: keyword_char_def is_digit_def code_unit_def)

lemma keyword_chars_own_property:
  assumes "list_all keyword_char w" and "w \<noteq> ''constructor''" and "w \<noteq> ''__proto__''"
  shows "object_prototype w = Undefined"
proof -
  have "w \<notin> set [''hasOwnProperty'', ''isPrototypeOf'', ''propertyIsEnumerable'',
              ''toLocaleString'', ''toString'', ''valueOf'', ''__defineGetter__'',
              ''__defineSetter__'', ''__lookupGetter__'', ''__lookupSetter__'']"
    using assms(1) capital_in_name [of w] by blast
  with assms(2,3) show ?thesis
    unfolding object_prototype_def by (simp only: if_False)
qed

lemma candidate_words_own:
  assumes "''constructor'' \<notin> set (candidate_words cfg text)"
    and "''__proto__'' \<notin> set (candidate_words cfg text)"
  shows "\<forall>w\<in>set (candidate_words cfg text). object_prototype w = Undefined"
proof
  fix w
  assume w: "w \<in> set (candidate_words cfg text)"
  then have "list_all keyword_char w"
    using candidate_word_chars by (auto simp: list_all_iff)
  moreover have "w \<noteq> ''constructor''" and "w \<noteq> ''__proto__''"
    using w assms by auto
  ultimately show "object_prototype w = Undefined"
    by (rule keyword_chars_own_property)
qed

text \<open>Without such a word every count is a number, kept in the order of first occurrence.\<close>

lemma first_occurrences_snoc:
  "first_occurrences (ws @ [w]) =
     (if w \<in> set ws then first_occurrences ws else first_occurrences ws @ [w])"
  by (simp add: first_occurrences_def)

lemma set_first_occurrences: "set (first_occurrences ws) = set ws"
  by (simp add: first_occurrences_def)

lemma distinct_first_occurrences: "distinct (first_occurrences ws)"
  by (simp add: first_occurrences_def)

lemma map_of_tally:
  "map_of (tally ws) w = (if w \<in> set ws then Some (Number (count_list ws w)) else None)"
proof -
  have "map_of (map (\<lambda>w. (w, Number (count_list ws w))) fo) w =
      (if w \<in> set fo then Some (Number (count_list ws w)) else None)" for fo
    by (induction fo) auto
  then show ?thesis
    by (simp add: tally_def set_first_occurrences)
qed

lemma keys_tally: "fst ` set (tally ws) = set ws"
  by (simp add: tally_def image_image set_first_occurrences)

lemma tally_bump:
  "map (\<lambda>(k, u). if k = w then (k, Number (Suc (count_list ws w))) else (k, u))
     (map (\<lambda>v. (v, Number (count_list ws v))) fo)
   = map (\<lambda>v. (v, Number (count_list (ws @ [w]) v))) fo"
  by (induction fo) auto

lemma tally_same:
  "w \<notin> set fo \<Longrightarrow>
   map (\<lambda>v. (v, Number (count_list ws v))) fo
   = map (\<lambda>v. (v, Number (count_list (ws @ [w]) v))) fo"
  by (induction fo) auto

lemma count_word_tally:
  assumes "object_prototype w = Undefined"
  shows "count_word (tally ws) w = tally (ws @ [w])"
proof -
  have not_proto: "w \<noteq> ''__proto__''"
    using assms by (auto simp: object_prototype_def)
  show ?thesis
  proof (cases "w \<in> set ws")
    case True
    then have "count_word (tally ws) w =
        map (\<lambda>(k, u). if k = w then (k, Number (Suc (count_list ws w))) else (k, u)) (tally ws)"
      using not_proto
      by (simp add: count_word_def get_property_def set_property_def map_of_tally keys_tally)
    also have "\<dots> = tally (ws @ [w])"
      using True unfolding tally_def first_occurrences_snoc by (simp only: tally_bump if_True)
    finally show ?thesis .
  next
    case False
    then have "count_word (tally ws) w = tally ws @ [(w, Number 1)]"
      using not_proto assms
      by (simp add: count_word_def get_property_def set_property_def map_of_tally keys_tally)
    also have "\<dots> = tally (ws @ [w])"
      using False tally_same [of w "first_occurrences ws" ws]
      by (simp add: tally_def first_occurrences_snoc set_first_occurrences)
    finally show ?thesis .
  qed
qed

lemma foldl_count_word:
  assumes "\<forall>w\<in>set ws. object_prototype w = Undefined"
  shows "foldl count_word [] ws = tally ws"
  using assms
proof (induction ws rule: rev_induct)
  case Nil
  then show ?case by (simp add: tally_def first_occurrences_def)
next
  case (snoc w ws)
  then show ?case by (simp add: count_word_tally)
qed

text \<open>On numbers the comparator of the extractor orders by descending count.\<close>

lemma insert_by_insort:
  assumes "\<forall>y\<in>set ys. (cmp x y \<le> 0) = (f x \<le> f y)"
  shows "insert_by cmp x ys = insort_key f x ys"
  using assms by (induction ys) simp_all

lemma js_sort_sort_key:
  assumes "\<forall>x\<in>set xs. \<forall>y\<in>set xs. (cmp x y \<le> 0) = (f x \<le> f y)"
  shows "js_sort cmp xs = sort_key f xs"
  using assms
proof (induction xs)
  case Nil
  then show ?case by (simp add: js_sort_def)
next
  case (Cons x xs)
  then have "js_sort cmp xs = sort_key f xs"
    by simp
  moreover have "insert_by cmp x (sort_key f xs) = insort_key f x (sort_key f xs)"
    using Cons.prems by (intro insert_by_insort) simp
  ultimately show ?case
    by (simp add: js_sort_def)
qed

lemma insort_key_map:
  "insort_key f (g x) (map g ys) = map g (insort_key (\<lambda>a. f (g a)) x ys)"
  by (induction ys) simp_all

lemma sort_key_map: "sort_key f (map g xs) = map g (sort_key (\<lambda>a. f (g a)) xs)"
  by (induction xs) (simp_all add: insort_key_map)

lemma slice_0_10: "slice 0 10 xs = take 10 xs"
  by (simp add: slice_def relative_index_def Let_def min_def)

lemma sort_tally:
  "js_sort (\<lambda>a b. minus_sign (snd b) (snd a)) (tally ws)
     = map (\<lambda>w. (w, Number (count_list ws w)))
         (sort_key (\<lambda>w. - int (count_list ws w)) (first_occurrences ws))"
proof -
  have "js_sort (\<lambda>a b. minus_sign (snd b) (snd a)) (tally ws)
      = sort_key (\<lambda>e. descending (snd e)) (tally ws)"
    by (rule js_sort_sort_key) (auto simp: tally_def)
  also have "\<dots> = map (\<lambda>w. (w, Number (count_list ws w)))
         (sort_key (\<lambda>w. descending (snd (w, Number (count_list ws w))))
            (first_occurrences ws))"
    unfolding tally_def by (rule sort_key_map)
  finally show ?thesis
    by simp
qed

lemma extractKeywords_by_frequency:
  assumes "\<forall>w\<in>set (candidate_words cfg text). object_prototype w = Undefined"
  shows "extractKeywords cfg text = keywords_by_frequency (candidate_words cfg text)"
  using assms
  by (simp add: extractKeywords_def Let_def foldl_count_word sort_tally slice_0_10
      keywords_by_frequency_def take_map comp_def)

lemma keywords_by_frequency_subset: "set (keywords_by_frequency ws) \<subseteq> set ws"
proof -
  have "set (keywords_by_frequency ws)
      \<subseteq> set (sort_key (\<lambda>w. - int (count_list ws w)) (first_occurrences ws))"
    unfolding keywords_by_frequency_def by (rule set_take_subset)
  then show ?thesis
    by (simp add: set_first_occurrences)
qed

lemma keywords_by_frequency_descending:
  "sorted (map (\<lambda>w. - int (count_list ws w)) (keywords_by_frequency ws))"
proof -
  have "sorted (take 10 (map (\<lambda>w. - int (count_list ws w))
      (sort_key (\<lambda>w. - int (count_list ws w)) (first_occurrences ws))))"
    by (intro sorted_wrt_take sorted_sort_key)
  then show ?thesis
    by (simp add: keywords_by_frequency_def take_map)
qed

text \<open>With a positive minimum length the empty text has no keyword.\<close>

lemma extractKeywords_empty_text:
  assumes "1 \<le> MIN_KEYWORD_LENGTH cfg"
  shows "extractKeywords cfg '''' = []"
  using assms
  by (simp add: extractKeywords_def candidate_words_def toLowerCase_def replace_punctuation_def
      keep_word_def js_sort_def slice_def Let_def)

text \<open>
  For a text in which neither \<^verbatim>\<open>constructor\<close> nor \<^verbatim>\<open>__proto__\<close> survives the filter, the
  result is the one the specification describes: at most ten distinct words of at least
  \<^verbatim>\<open>MIN_KEYWORD_LENGTH\<close> characters from \<^verbatim>\<open>[a-z0-9_]\<close>, no stop word and no numeral among
  them, by descending frequency, and by first occurrence among equally frequent words.
\<close>

lemma extractKeywords_apart_from_prototype:
  assumes "''constructor'' \<notin> set (candidate_words cfg text)"
    and "''__proto__'' \<notin> set (candidate_words cfg text)"
  shows "extractKeywords cfg text = keywords_by_frequency (candidate_words cfg text) \<and>
         length (extractKeywords cfg text) \<le> 10 \<and>
         distinct (extractKeywords cfg text) \<and>
         (\<forall>w\<in>set (extractKeywords cfg text).
            MIN_KEYWORD_LENGTH cfg \<le> int (length w) \<and> w \<notin> set stopWords \<and>
            \<not> pure_number w \<and> list_all keyword_char w) \<and>
         sorted (map (\<lambda>w. - int (count_list (candidate_words cfg text) w))
                   (extractKeywords cfg text))"
proof -
  let ?ws = "candidate_words cfg text"
  have eq: "extractKeywords cfg text = keywords_by_frequency ?ws"
    using candidate_words_own [OF assms] by (rule extractKeywords_by_frequency)
  have "length (keywords_by_frequency ?ws) \<le> 10"
    by (simp add: keywords_by_frequency_def)
  moreover have "distinct (keywords_by_frequency ?ws)"
    by (simp add: keywords_by_frequency_def distinct_first_occurrences)
  moreover have "MIN_KEYWORD_LENGTH cfg \<le> int (length w) \<and> w \<notin> set stopWords \<and>
            \<not> pure_number w \<and> list_all keyword_char w"
    if "w \<in> set (keywords_by_frequency ?ws)" for w
  proof -
    from that have w: "w \<in> set ?ws"
      using keywords_by_frequency_subset by blast
    then have "keep_word cfg w"
      by (simp add: candidate_words_def)
    moreover have "list_all keyword_char w"
      using w candidate_word_chars by (auto simp: list_all_iff)
    ultimately show ?thesis
      by (simp add: keep_word_def)
  qed
  ultimately show ?thesis
    unfolding eq using keywords_by_frequency_descending [of ?ws] by blast
qed

text \<open>
  What holds for every text: the keys of \<^verbatim>\<open>wordFreq\<close> are distinct words of the text that
  passed the filter, whatever their counts are.
\<close>

lemma keys_update:
  "map fst (map (\<lambda>(k, u). if k = key then (k, v) else (k, u)) obj) = map fst obj"
  by (induction obj) auto

lemma keys_count_word:
  "map fst (count_word obj w) =
     (if w = ''__proto__'' \<or> w \<in> fst ` set obj then map fst obj else map fst obj @ [w])"
proof -
  let ?v = "or_zero_plus_one (get_property obj w)"
  have "map fst (set_property obj w ?v) =
     (if w = ''__proto__'' \<or> w \<in> fst ` set obj then map fst obj else map fst obj @ [w])"
  proof (cases "w = ''__proto__''")
    case True
    then show ?thesis
      by (simp add: set_property_def)
  next
    case False
    show ?thesis
    proof (cases "w \<in> fst ` set obj")
      case True
      with False have "set_property obj w ?v =
          map (\<lambda>(k, u). if k = w then (k, ?v) else (k, u)) obj"
        by (simp only: set_property_def if_False if_True)
      then show ?thesis
        using True by (simp only: keys_update if_True simp_thms)
    next
      case no: False
      with False have "set_property obj w ?v = obj @ [(w, ?v)]"
        by (simp only: set_property_def if_False)
      then show ?thesis
        using no False by simp
    qed
  qed
  then show ?thesis
    by (simp only: count_word_def)
qed

lemma keys_foldl_count_word:
  "distinct (map fst obj) \<Longrightarrow>
   distinct (map fst (foldl count_word obj ws)) \<and>
   fst ` set (foldl count_word obj ws) \<subseteq> fst ` set obj \<union> set ws"
proof (induction ws arbitrary: obj)
  case Nil
  then show ?case by simp
next
  case (Cons w ws)
  have d: "distinct (map fst (count_word obj w))"
    using Cons.prems by (simp add: keys_count_word)
  have "set (map fst (count_word obj w)) \<subseteq> insert w (set (map fst obj))"
    by (simp only: keys_count_word) (auto simp del: set_map)
  then have k: "fst ` set (count_word obj w) \<subseteq> insert w (fst ` set obj)"
    by simp
  from Cons.IH [OF d]
  have "distinct (map fst (foldl count_word (count_word obj w) ws))"
    and "fst ` set (foldl count_word (count_word obj w) ws) \<subseteq> fst ` set (count_word obj w) \<union> set ws"
    by simp_all
  with k show ?case
    by (simp only: foldl_Cons list.set) blast
qed

lemma extractKeywords_always:
  "length (extractKeywords cfg text) \<le> 10 \<and>
   distinct (extractKeywords cfg text) \<and>
   (\<forall>w\<in>set (extractKeywords cfg text).
      w \<in> set (candidate_words cfg text) \<and>
      MIN_KEYWORD_LENGTH cfg \<le> int (length w) \<and> w \<notin> set stopWords \<and>
      \<not> pure_number w \<and> list_all keyword_char w)"
proof -
  let ?obj = "foldl count_word [] (candidate_words cfg text)"
  let ?sorted = "js_sort (\<lambda>a b. minus_sign (snd b) (snd a)) ?obj"
  have out: "extractKeywords cfg text = take 10 (map fst ?sorted)"
    by (simp add: extractKeywords_def Let_def slice_0_10 take_map)
  have keys: "distinct (map fst ?obj)" "set (map fst ?obj) \<subseteq> set (candidate_words cfg text)"
    using keys_foldl_count_word [of "[]" "candidate_words cfg text"] by simp_all
  have "mset (map fst ?sorted) = mset (map fst ?obj)"
    by (simp add: mset_js_sort)
  then have same: "distinct (map fst ?sorted)" "set (map fst ?sorted) = set (map fst ?obj)"
    using keys(1) by (metis mset_eq_imp_distinct_iff, metis mset_eq_setD)
  have "distinct (extractKeywords cfg text)"
    unfolding out using same(1) by (rule distinct_take)
  moreover have "w \<in> set (candidate_words cfg text) \<and>
      MIN_KEYWORD_LENGTH cfg \<le> int (length w) \<and> w \<notin> set stopWords \<and>
      \<not> pure_number w \<and> list_all keyword_char w"
    if "w \<in> set (extractKeywords cfg text)" for w
  proof -
    from that have "w \<in> set (map fst ?sorted)"
      unfolding out by (rule in_set_takeD)
    with same(2) keys(2) have w: "w \<in> set (candidate_words cfg text)"
      by blast
    then have "keep_word cfg w"
      by (simp add: candidate_words_def)
    moreover have "list_all keyword_char w"
      using w candidate_word_chars by (auto simp: list_all_iff)
    ultimately show ?thesis
      using w by (simp add: keep_word_def)
  qed
  moreover have "length (extractKeywords cfg text) \<le> 10"
    unfolding out by simp
  ultimately show ?thesis
    by blast
qed

subsection \<open>Configuration\<close>

text \<open>
  Claim C10. Whatever the environment holds and whatever the parsers return for it, the
  five settings of \<^verbatim>\<open>createConfig\<close> are nonzero: a value that parses to 0 or to \<^verbatim>\<open>NaN\<close> is
  replaced by the default (4000, 3, 3, 4 and 0.3).
\<close>

theorem createConfig_nonzero:
  "MAX_CONTEXT_CHARS (createConfig parseInt parseFloat env) \<noteq> 0 \<and>
   MIN_RECENT_MESSAGES (createConfig parseInt parseFloat env) \<noteq> 0 \<and>
   MAX_RELEVANT_OLDER (createConfig parseInt parseFloat env) \<noteq> 0 \<and>
   MIN_KEYWORD_LENGTH (createConfig parseInt parseFloat env) \<noteq> 0 \<and>
   RELEVANCE_THRESHOLD (createConfig parseInt parseFloat env) \<noteq> 0 \<and>
   (parseInt (env ''MAX_CONTEXT_CHARS'') \<in> {None, Some 0} \<longrightarrow>
      MAX_CONTEXT_CHARS (createConfig parseInt parseFloat env) = 4000) \<and>
   (parseInt (env ''MIN_RECENT_MESSAGES'') \<in> {None, Some 0} \<longrightarrow>
      MIN_RECENT_MESSAGES (createConfig parseInt parseFloat env) = 3) \<and>
   (parseInt (env ''MAX_RELEVANT_OLDER'') \<in> {None, Some 0} \<longrightarrow>
      MAX_RELEVANT_OLDER (createConfig parseInt parseFloat env) = 3) \<and>
   (parseInt (env ''MIN_KEYWORD_LENGTH'') \<in> {None, Some 0} \<longrightarrow>
      MIN_KEYWORD_LENGTH (createConfig parseInt parseFloat env) = 4) \<and>
   (parseFloat (env ''RELEVANCE_THRESHOLD'') \<in> {None, Some 0} \<longrightarrow>
      RELEVANCE_THRESHOLD (createConfig parseInt parseFloat env) = 3 / 10)"
  by (auto simp: createConfig_def or_default_def split: option.splits)

theorem createConfig_nonzero_witness:
  "(\<lambda>v. if v = Some ''0'' then Some 0 else if v = Some ''25'' then Some 25 else None)
      ((\<lambda>name. if name = ''MIN_RECENT_MESSAGES'' then Some ''0''
                else if name = ''MAX_RELEVANT_OLDER'' then Some ''25''
                else if name = ''MAX_CONTEXT_CHARS'' then Some ''many'' else None)
         ''MIN_RECENT_MESSAGES'') \<in> {None, Some (0::int)} \<and>
   createConfig
     (\<lambda>v. if v = Some ''0'' then Some 0 else if v = Some ''25'' then Some 25 else None)
     (\<lambda>v. if v = Some ''0'' then Some 0 else None)
     (\<lambda>name. if name = ''MIN_RECENT_MESSAGES'' then Some ''0''
              else if name = ''MAX_RELEVANT_OLDER'' then Some ''25''
              else if name = ''MAX_CONTEXT_CHARS'' then Some ''many'' else None)
   = \<lparr>MAX_CONTEXT_CHARS = 4000, MIN_RECENT_MESSAGES = 3, MAX_RELEVANT_OLDER = 25,
      MIN_KEYWORD_LENGTH = 4, RELEVANCE_THRESHOLD = 3 / 10\<rparr>"
  using createConfig_nonzero
    [of "\<lambda>v. if v = Some ''0'' then Some 0 else if v = Some ''25'' then Some 25 else None"
        "\<lambda>v. if v = Some ''0'' then Some 0 else None"
        "\<lambda>name. if name = ''MIN_RECENT_MESSAGES'' then Some ''0''
              else if name = ''MAX_RELEVANT_OLDER'' then Some ''25''
              else if name = ''MAX_CONTEXT_CHARS'' then Some ''many'' else None"]
  by (simp add: createConfig_def or_default_def)

subsection \<open>The budgeter\<close>

lemma cost_Cons: "cost (m # ms) = int (length (content m)) + 30 + cost ms"
  by (simp add: cost_def)

lemma cost_Nil: "cost [] = 0"
  by (simp add: cost_def)

text \<open>The loop puts some number of the messages it visits in front of its result.\<close>

lemma truncate_loop_take:
  "\<exists>k. truncate_loop mx todo t res = rev (take k todo) @ res"
proof (induction todo arbitrary: t res)
  case Nil
  then show ?case by simp
next
  case (Cons m todo)
  show ?case
  proof (cases "t + (int (length (content m)) + 30) > mx \<and> length res > 0")
    case True
    then have "truncate_loop mx (m # todo) t res = rev (take 0 (m # todo)) @ res"
      by (simp add: Let_def)
    then show ?thesis by blast
  next
    case False
    obtain k where "truncate_loop mx todo (t + (int (length (content m)) + 30)) (m # res)
        = rev (take k todo) @ m # res"
      using Cons.IH by blast
    with False have "truncate_loop mx (m # todo) t res = rev (take (Suc k) (m # todo)) @ res"
      by (simp add: Let_def)
    then show ?thesis by blast
  qed
qed

text \<open>Once the total is over the budget, every further message breaks the loop.\<close>

lemma truncate_loop_over:
  "res \<noteq> [] \<Longrightarrow> t > mx \<Longrightarrow> truncate_loop mx todo t res = res"
  by (cases todo) (simp_all add: Let_def)

text \<open>While the total is within the budget, it stays there.\<close>

lemma truncate_loop_within:
  "res \<noteq> [] \<Longrightarrow> t = cost res \<Longrightarrow> t \<le> mx \<Longrightarrow> cost (truncate_loop mx todo t res) \<le> mx"
proof (induction todo arbitrary: t res)
  case Nil
  then show ?case by simp
next
  case (Cons m todo)
  show ?case
  proof (cases "t + (int (length (content m)) + 30) > mx")
    case True
    with Cons.prems show ?thesis by (simp add: Let_def)
  next
    case False
    have "cost (truncate_loop mx todo (t + (int (length (content m)) + 30)) (m # res)) \<le> mx"
      using Cons.prems False by (intro Cons.IH) (simp_all add: cost_Cons)
    with False show ?thesis by (simp add: Let_def)
  qed
qed

lemma truncate_loop_nonempty: "res \<noteq> [] \<Longrightarrow> truncate_loop mx todo t res \<noteq> []"
  using truncate_loop_take [of mx todo t res] by auto

text \<open>The first iteration always takes the newest message.\<close>

lemma truncate_newest:
  "truncateToCharLimit (ms @ [m]) mx =
     truncate_loop mx (rev ms) (int (length (content m)) + 30) [m]"
  by (simp add: truncateToCharLimit_def Let_def)

text \<open>
  Claim C1. For a non-empty input the budgeter returns a non-empty list. When the cost of
  the newest message alone (its content length plus 30) is over the budget, the result is
  exactly that message; otherwise the cost of the result is at most the budget. The
  input need not be in chronological order for this.
\<close>

theorem truncateToCharLimit_budget:
  assumes "messages \<noteq> []"
  shows "truncateToCharLimit messages maxChars \<noteq> [] \<and>
         (if cost [last messages] > maxChars
          then truncateToCharLimit messages maxChars = [last messages]
          else cost (truncateToCharLimit messages maxChars) \<le> maxChars)"
proof -
  obtain ms m where split: "messages = ms @ [m]"
    using assms by (metis append_butlast_last_id)
  have newest: "last messages = m"
    by (simp add: split)
  have run: "truncateToCharLimit messages maxChars =
      truncate_loop maxChars (rev ms) (cost [m]) [m]"
    by (simp add: split truncate_newest cost_Cons cost_Nil)
  have "truncate_loop maxChars (rev ms) (cost [m]) [m] \<noteq> []"
    by (simp add: truncate_loop_nonempty)
  moreover have "truncate_loop maxChars (rev ms) (cost [m]) [m] = [m]"
    if "cost [m] > maxChars"
    using that by (simp add: truncate_loop_over)
  moreover have "cost (truncate_loop maxChars (rev ms) (cost [m]) [m]) \<le> maxChars"
    if "\<not> cost [m] > maxChars"
    using that by (simp add: truncate_loop_within)
  ultimately show ?thesis
    unfolding run newest by simp
qed

theorem truncateToCharLimit_budget_witness:
  "[\<lparr>role = ''user'', content = ''hello there'', timestamp = 1\<rparr>,
    \<lparr>role = ''assistant'', content = ''general greeting'', timestamp = 2\<rparr>] \<noteq> [] \<and>
   truncateToCharLimit
     [\<lparr>role = ''user'', content = ''hello there'', timestamp = 1\<rparr>,
      \<lparr>role = ''assistant'', content = ''general greeting'', timestamp = 2\<rparr>] 50 \<noteq> [] \<and>
   cost (truncateToCharLimit
     [\<lparr>role = ''user'', content = ''hello there'', timestamp = 1\<rparr>,
      \<lparr>role = ''assistant'', content = ''general greeting'', timestamp = 2\<rparr>] 50) \<le> 50"
  using truncateToCharLimit_budget
    [of "[\<lparr>role = ''user'', content = ''hello there'', timestamp = 1\<rparr>,
          \<lparr>role = ''assistant'', content = ''general greeting'', timestamp = 2\<rparr>]" 50]
  by (simp add: cost_def)

text \<open>
  Claim C3. The output of the budgeter is a suffix of its input: it keeps the newest
  messages, contiguously and in the order of the input, so an input in ascending timestamp
  order gives an output in ascending timestamp order.
\<close>

theorem truncateToCharLimit_suffix:
  "suffix (truncateToCharLimit messages maxChars) messages \<and>
   (sorted (map timestamp messages) \<longrightarrow>
      sorted (map timestamp (truncateToCharLimit messages maxChars)))"
proof -
  obtain k where "truncateToCharLimit messages maxChars = rev (take k (rev messages))"
    using truncate_loop_take [of maxChars "rev messages" 0 "[]"]
    by (auto simp: truncateToCharLimit_def)
  then have kept: "truncateToCharLimit messages maxChars = drop (length messages - k) messages"
    by (simp add: take_rev)
  have "suffix (truncateToCharLimit messages maxChars) messages"
    by (simp add: kept suffix_drop)
  moreover have "sorted (map timestamp (truncateToCharLimit messages maxChars))"
    if "sorted (map timestamp messages)"
    using that by (simp add: kept drop_map [symmetric] del: drop_map)
  ultimately show ?thesis by blast
qed

theorem truncateToCharLimit_suffix_witness:
  "sorted (map timestamp
     [\<lparr>role = ''user'', content = ''hello there'', timestamp = 1\<rparr>,
      \<lparr>role = ''assistant'', content = ''general greeting'', timestamp = 2\<rparr>,
      \<lparr>role = ''user'', content = ''thanks'', timestamp = 5\<rparr>]) \<and>
   suffix (truncateToCharLimit
     [\<lparr>role = ''user'', content = ''hello there'', timestamp = 1\<rparr>,
      \<lparr>role = ''assistant'', content = ''general greeting'', timestamp = 2\<rparr>,
      \<lparr>role = ''user'', content = ''thanks'', timestamp = 5\<rparr>] 90)
     [\<lparr>role = ''user'', content = ''hello there'', timestamp = 1\<rparr>,
      \<lparr>role = ''assistant'', content = ''general greeting'', timestamp = 2\<rparr>,
      \<lparr>role = ''user'', content = ''thanks'', timestamp = 5\<rparr>] \<and>
   sorted (map timestamp (truncateToCharLimit
     [\<lparr>role = ''user'', content = ''hello there'', timestamp = 1\<rparr>,
      \<lparr>role = ''assistant'', content = ''general greeting'', timestamp = 2\<rparr>,
      \<lparr>role = ''user'', content = ''thanks'', timestamp = 5\<rparr>] 90))"
  using truncateToCharLimit_suffix
    [of "[\<lparr>role = ''user'', content = ''hello there'', timestamp = 1\<rparr>,
          \<lparr>role = ''assistant'', content = ''general greeting'', timestamp = 2\<rparr>,
          \<lparr>role = ''user'', content = ''thanks'', timestamp = 5\<rparr>]" 90]
  by simp

subsection \<open>The percentage of the stats accessor\<close>

lemma pow2_powi: "pow2 e = 2 powi e"
  by (simp add: pow2_def power_int_def inverse_eq_divide power_divide)

lemma pow2_pos: "0 < pow2 e"
  by (simp add: pow2_powi)

lemma pow2_add: "pow2 (a + b) = pow2 a * pow2 b"
  by (simp add: pow2_powi power_int_add)

lemma pow2_mono: "a \<le> b \<Longrightarrow> pow2 a \<le> pow2 b"
  by (simp add: pow2_powi power_int_increasing)

text \<open>The exponent the rounding takes is the binary exponent of the number.\<close>

lemma binary_exponent_bounds:
  assumes "0 < q"
  shows "pow2 (binary_exponent q) \<le> q" and "q < pow2 (binary_exponent q + 1)"
proof -
  obtain n d where nd: "quotient_of q = (n, d)"
    by (cases "quotient_of q")
  then have d: "0 < d" and q: "q = of_int n / of_int d"
    by (simp_all add: quotient_of_denom_pos quotient_of_div)
  with assms have n: "0 < n"
    by (simp add: zero_less_divide_iff)
  let ?e = "bitlen n - bitlen d"
  have bn: "2 ^ nat (bitlen n - 1) \<le> n" "n < 2 ^ nat (bitlen n)"
    and bd: "2 ^ nat (bitlen d - 1) \<le> d" "d < 2 ^ nat (bitlen d)"
    using bitlen_bounds [OF n] bitlen_bounds [OF d] by simp_all
  have ln: "1 \<le> bitlen n" and ld: "1 \<le> bitlen d"
    using n d by (simp_all add: bitlen_def floorlog_def)
  have rn: "pow2 (bitlen n - 1) \<le> of_int n" "of_int n < pow2 (bitlen n)"
  proof -
    have "(2::rat) ^ nat (bitlen n - 1) \<le> of_int n"
      using bn(1) by (metis of_int_le_iff of_int_numeral of_int_power)
    then show "pow2 (bitlen n - 1) \<le> of_int n"
      using ln by (simp add: pow2_def)
    have "of_int n < (2::rat) ^ nat (bitlen n)"
      using bn(2) by (metis of_int_less_iff of_int_numeral of_int_power)
    then show "of_int n < pow2 (bitlen n)"
      using ln by (simp add: pow2_def)
  qed
  have rd: "pow2 (bitlen d - 1) \<le> of_int d" "of_int d < pow2 (bitlen d)"
  proof -
    have "(2::rat) ^ nat (bitlen d - 1) \<le> of_int d"
      using bd(1) by (metis of_int_le_iff of_int_numeral of_int_power)
    then show "pow2 (bitlen d - 1) \<le> of_int d"
      using ld by (simp add: pow2_def)
    have "of_int d < (2::rat) ^ nat (bitlen d)"
      using bd(2) by (metis of_int_less_iff of_int_numeral of_int_power)
    then show "of_int d < pow2 (bitlen d)"
      using ld by (simp add: pow2_def)
  qed
  have dpos: "(0::rat) < of_int d"
    using d by simp
  have low: "pow2 (?e - 1) \<le> q"
  proof -
    have "pow2 (?e - 1) * of_int d \<le> pow2 (?e - 1) * pow2 (bitlen d)"
      using rd(2) pow2_pos [of "?e - 1"] by (simp add: less_imp_le)
    also have "\<dots> = pow2 (bitlen n - 1)"
      by (simp add: pow2_add [symmetric])
    also have "\<dots> \<le> of_int n"
      by (rule rn(1))
    finally show ?thesis
      using dpos by (simp add: q pos_le_divide_eq)
  qed
  have high: "q < pow2 (?e + 1)"
  proof -
    have "of_int n < pow2 (bitlen n)"
      by (rule rn(2))
    also have "\<dots> = pow2 (?e + 1) * pow2 (bitlen d - 1)"
      by (simp add: pow2_add [symmetric])
    also have "\<dots> \<le> pow2 (?e + 1) * of_int d"
      using rd(1) pow2_pos [of "?e + 1"] by simp
    finally show ?thesis
      using dpos by (simp add: q pos_divide_less_eq)
  qed
  show "pow2 (binary_exponent q) \<le> q"
    using low by (simp add: binary_exponent_def nd Let_def)
  show "q < pow2 (binary_exponent q + 1)"
    using high by (auto simp: binary_exponent_def nd Let_def not_le)
qed

lemma round_half_even_near: "\<bar>of_int (round_half_even y) - y\<bar> \<le> 1 / 2"
proof -
  have "of_int \<lfloor>y\<rfloor> \<le> y" "y < of_int \<lfloor>y\<rfloor> + 1"
    by linarith+
  then show ?thesis
    by (auto simp: round_half_even_def Let_def abs_le_iff)
qed

lemma signed_distance:
  fixes q r :: rat
  shows "q \<noteq> 0 \<Longrightarrow> \<bar>sgn q * r - q\<bar> = \<bar>r - \<bar>q\<bar>\<bar>"
  by (cases "0 < q") (simp_all add: sgn_if abs_minus_commute [of "- r" q])

lemma signed_negative:
  fixes q r :: rat
  shows "0 < r \<Longrightarrow> q \<noteq> 0 \<Longrightarrow> (sgn q * r < 0) = (q < 0)"
  by (cases "0 < q") (simp_all add: sgn_if)

text \<open>In the range of normal doubles the rounding has a relative error of at most \<open>2^(-53)\<close>.\<close>

lemma round_double_near:
  assumes "q \<noteq> 0" and "pow2 (- 1022) \<le> \<bar>q\<bar>" and "\<bar>q\<bar> \<le> 2 ^ 1023"
  shows "\<exists>r. round_double q = Finite r \<and> \<bar>r - q\<bar> \<le> \<bar>q\<bar> / 2 ^ 53 \<and> (r < 0) = (q < 0)"
proof -
  let ?a = "\<bar>q\<bar>"
  let ?e = "binary_exponent ?a"
  let ?ulp = "pow2 (?e - 52)"
  let ?r = "of_int (round_half_even (?a / ?ulp)) * ?ulp :: rat"
  have a: "0 < ?a"
    using assms(1) by simp
  have low: "pow2 ?e \<le> ?a" and high: "?a < pow2 (?e + 1)"
    using binary_exponent_bounds [OF a] by simp_all
  have normal: "- 1022 \<le> ?e"
  proof (rule ccontr)
    assume "\<not> - 1022 \<le> ?e"
    then have "pow2 (?e + 1) \<le> pow2 (- 1022)"
      by (intro pow2_mono) simp
    with assms(2) high show False
      by simp
  qed
  then have "max (?e - 52) (- 1074) = ?e - 52"
    by linarith
  then have ulp: "pow2 (max (?e - 52) (- 1074)) = ?ulp"
    by (simp only:)
  have ulp_pos: "0 < ?ulp"
    by (rule pow2_pos)
  have half: "?ulp / 2 \<le> ?a / 2 ^ 53"
  proof -
    have "pow2 ?e = pow2 (?e - 52) * pow2 52"
      by (simp add: pow2_add [symmetric])
    then have "?ulp * 2 ^ 52 \<le> ?a"
      using low by (simp add: pow2_def)
    then show ?thesis
      by simp
  qed
  have "\<bar>?r - ?a\<bar> = \<bar>of_int (round_half_even (?a / ?ulp)) - ?a / ?ulp\<bar> * ?ulp"
  proof -
    have "?r - ?a = (of_int (round_half_even (?a / ?ulp)) - ?a / ?ulp) * ?ulp"
      using ulp_pos by (simp add: algebra_simps)
    then show ?thesis
      using ulp_pos by (simp add: abs_mult)
  qed
  also have "\<dots> \<le> 1 / 2 * ?ulp"
    using round_half_even_near [of "?a / ?ulp"] ulp_pos by (intro mult_right_mono) simp_all
  finally have near: "\<bar>?r - ?a\<bar> \<le> ?a / 2 ^ 53"
    using half by simp
  then have r_pos: "0 < ?r"
  proof -
    have "?a / 2 ^ 53 < ?a"
      using a by simp
    with near show ?thesis
      by linarith
  qed
  have "?r \<le> ?a + ?a / 2 ^ 53"
    using near by linarith
  also have "\<dots> \<le> 2 ^ 1023 + 2 ^ 1023 / 2 ^ 53"
    using assms(3) by (intro add_mono divide_right_mono) simp_all
  also have "\<dots> < (2::rat) ^ 1024"
    by simp
  finally have finite: "\<not> 2 ^ 1024 \<le> ?r"
    by simp
  have result: "round_double q = Finite (sgn q * ?r)"
    using assms(1) finite by (simp add: round_double_def ulp Let_def)
  have "\<bar>sgn q * ?r - q\<bar> = \<bar>?r - ?a\<bar>"
    using assms(1) by (rule signed_distance)
  moreover have "(sgn q * ?r < 0) = (q < 0)"
    using r_pos assms(1) by (rule signed_negative)
  ultimately show ?thesis
    using result near by simp
qed

lemma near_half:
  fixes q r :: rat
  assumes "\<bar>r - q\<bar> \<le> \<bar>q\<bar> / 2"
  shows "\<bar>q\<bar> / 2 \<le> \<bar>r\<bar>" and "\<bar>r\<bar> \<le> 2 * \<bar>q\<bar>"
  using assms by (simp_all add: abs_if split: if_splits)

lemma two_roundings:
  fixes q r1 r2 :: rat
  assumes "\<bar>r1 - q\<bar> \<le> \<bar>q\<bar> / 2 ^ 53" and "\<bar>r2 - r1 * 100\<bar> \<le> \<bar>r1 * 100\<bar> / 2 ^ 53"
  shows "\<bar>r2 - 100 * q\<bar> \<le> \<bar>100 * q\<bar> / 2 ^ 51"
proof -
  define e :: rat where "e = 1 / 2 ^ 53"
  define d where "d = \<bar>q\<bar>"
  have e: "0 < e" "e \<le> 1" and four: "1 / 2 ^ 51 = 4 * e"
    by (simp_all add: e_def)
  have d: "0 \<le> d"
    by (simp add: d_def)
  have first: "\<bar>r1 - q\<bar> \<le> d * e"
    using assms(1) by (simp add: e_def d_def)
  then have "\<bar>r1\<bar> \<le> d + d * e"
    unfolding d_def by linarith
  then have "\<bar>r1 * 100\<bar> \<le> 100 * (d + d * e)"
    by (simp add: abs_mult)
  then have "\<bar>r1 * 100\<bar> * e \<le> 100 * (d + d * e) * e"
    using e(1) by (intro mult_right_mono) simp_all
  moreover have "\<bar>r2 - r1 * 100\<bar> \<le> \<bar>r1 * 100\<bar> * e"
    using assms(2) by (simp add: e_def)
  ultimately have second: "\<bar>r2 - r1 * 100\<bar> \<le> 100 * (d + d * e) * e"
    by linarith
  define x where "x = d * e"
  define y where "y = d * e * e"
  have x: "0 \<le> x"
    using d e by (simp add: x_def)
  have "x * e \<le> x * 1"
    using x e by (intro mult_left_mono) simp_all
  then have small: "y \<le> x"
    by (simp add: x_def y_def)
  have "r2 - 100 * q = (r2 - r1 * 100) + 100 * (r1 - q)"
    by simp
  then have "\<bar>r2 - 100 * q\<bar> \<le> \<bar>r2 - r1 * 100\<bar> + \<bar>100 * (r1 - q)\<bar>"
    by (simp only: abs_triangle_ineq)
  moreover have "\<bar>100 * (r1 - q)\<bar> = 100 * \<bar>r1 - q\<bar>"
    by (simp only: abs_mult abs_numeral)
  ultimately have "\<bar>r2 - 100 * q\<bar> \<le> \<bar>r2 - r1 * 100\<bar> + 100 * \<bar>r1 - q\<bar>"
    by (simp only:)
  also have "\<dots> \<le> 100 * (d + d * e) * e + 100 * (d * e)"
    by (intro add_mono second mult_left_mono first) simp
  also have "\<dots> = 200 * x + 100 * y"
    by (simp add: x_def y_def algebra_simps)
  also have "\<dots> \<le> 400 * x"
    using small x by linarith
  also have "\<dots> = \<bar>100 * q\<bar> / 2 ^ 51"
    by (simp add: x_def d_def e_def abs_mult)
  finally show ?thesis .
qed

text \<open>
  The percentage in doubles, for a nonzero budget and a total that are doubles themselves:
  a finite number within a relative error of \<open>2^(-51)\<close> of the exact percentage.
\<close>

lemma percent_near:
  fixes t :: nat and m :: int
  assumes "m \<noteq> 0" and "\<bar>m\<bar> \<le> 2 ^ 53" and "t \<le> 2 ^ 53"
  shows "\<exists>x. js_times (js_over t m) 100 = Finite x \<and>
           \<bar>x - 100 * (of_nat t / of_int m)\<bar> \<le> \<bar>100 * (of_nat t / of_int m)\<bar> / 2 ^ 51 \<and>
           (x < 0) = (0 < t \<and> m < 0)"
proof (cases "t = 0")
  case True
  with assms(1) show ?thesis
    by (simp add: js_over_def round_double_def)
next
  case False
  let ?q = "of_nat t / of_int m :: rat"
  have q: "?q \<noteq> 0"
    using False assms(1) by simp
  have size: "\<bar>?q\<bar> = of_nat t / of_int \<bar>m\<bar>"
    by (simp add: abs_divide)
  have mpos: "(0::rat) < of_int \<bar>m\<bar>" and mle: "of_int \<bar>m\<bar> \<le> (2::rat) ^ 53"
  proof -
    show "(0::rat) < of_int \<bar>m\<bar>"
      using assms(1) by simp
    have "of_int \<bar>m\<bar> \<le> (of_int (2 ^ 53) :: rat)"
      using assms(2) by (simp only: of_int_le_iff)
    then show "of_int \<bar>m\<bar> \<le> (2::rat) ^ 53"
      by simp
  qed
  have tpos: "(1::rat) \<le> of_nat t" and tle: "of_nat t \<le> (2::rat) ^ 53"
  proof -
    show "(1::rat) \<le> of_nat t"
      using False by simp
    have "of_nat t \<le> (of_nat (2 ^ 53) :: rat)"
      using assms(3) by (simp only: of_nat_le_iff)
    then show "of_nat t \<le> (2::rat) ^ 53"
      by simp
  qed
  have lower: "(1::rat) / 2 ^ 53 \<le> \<bar>?q\<bar>"
  proof -
    have "(1::rat) / 2 ^ 53 \<le> 1 / of_int \<bar>m\<bar>"
      using mpos mle by (intro divide_left_mono) simp_all
    also have "\<dots> \<le> of_nat t / of_int \<bar>m\<bar>"
      using tpos mpos by (intro divide_right_mono) simp_all
    finally show ?thesis
      by (simp only: size)
  qed
  have upper: "\<bar>?q\<bar> \<le> 2 ^ 53"
  proof -
    have "(of_nat t :: rat) / of_int \<bar>m\<bar> \<le> of_nat t / 1"
      using mpos assms(1) by (intro divide_left_mono) simp_all
    with tle show ?thesis
      by (simp only: size)
  qed
  have tiny: "pow2 (- 1022) \<le> (1::rat) / 2 ^ 54"
    by (simp add: pow2_def)
  have "pow2 (- 1022) \<le> \<bar>?q\<bar>" and "\<bar>?q\<bar> \<le> 2 ^ 1023"
    using lower upper tiny by simp_all
  from round_double_near [OF q this] obtain r1
    where r1: "round_double ?q = Finite r1" "\<bar>r1 - ?q\<bar> \<le> \<bar>?q\<bar> / 2 ^ 53" "(r1 < 0) = (?q < 0)"
    by blast
  have "\<bar>?q\<bar> / 2 ^ 53 \<le> \<bar>?q\<bar> / 2"
    by (intro divide_left_mono) simp_all
  with r1(2) have "\<bar>r1 - ?q\<bar> \<le> \<bar>?q\<bar> / 2"
    by (rule order_trans)
  then have r1_low: "\<bar>?q\<bar> / 2 \<le> \<bar>r1\<bar>" and r1_high: "\<bar>r1\<bar> \<le> 2 * \<bar>?q\<bar>"
    by (rule near_half)+
  have "0 < \<bar>?q\<bar> / 2"
    using q by simp
  then have "0 < \<bar>r1\<bar>"
    using r1_low by (rule less_le_trans)
  then have y: "r1 * 100 \<noteq> 0"
    by simp
  have "pow2 (- 1022) \<le> \<bar>r1 * 100\<bar>" and "\<bar>r1 * 100\<bar> \<le> 2 ^ 1023"
  proof -
    have "(1::rat) / 2 ^ 54 = 1 / 2 ^ 53 / 2"
      by simp
    also have "\<dots> \<le> \<bar>?q\<bar> / 2"
      using lower by (rule divide_right_mono) simp
    also have "\<dots> \<le> \<bar>r1\<bar>"
      by (rule r1_low)
    also have "\<dots> \<le> \<bar>r1\<bar> * 100"
      by simp
    finally have "(1::rat) / 2 ^ 54 \<le> \<bar>r1 * 100\<bar>"
      by (simp only: abs_mult abs_numeral)
    with tiny show "pow2 (- 1022) \<le> \<bar>r1 * 100\<bar>"
      by (rule order_trans)
    have "\<bar>r1\<bar> \<le> 2 * \<bar>?q\<bar>"
      by (rule r1_high)
    also have "\<dots> \<le> 2 * 2 ^ 53"
      using upper by (intro mult_left_mono) simp_all
    finally have "\<bar>r1\<bar> * 100 \<le> 2 * 2 ^ 53 * 100"
      by (rule mult_right_mono) simp
    also have "\<dots> \<le> (2::rat) ^ 1023"
      by simp
    finally show "\<bar>r1 * 100\<bar> \<le> 2 ^ 1023"
      by (simp only: abs_mult abs_numeral)
  qed
  from round_double_near [OF y this] obtain r2
    where r2: "round_double (r1 * 100) = Finite r2" "\<bar>r2 - r1 * 100\<bar> \<le> \<bar>r1 * 100\<bar> / 2 ^ 53"
      "(r2 < 0) = (r1 * 100 < 0)"
    by blast
  have "js_times (js_over t m) 100 = Finite r2"
    using assms(1) by (simp add: js_over_def r1(1) r2(1))
  moreover have "\<bar>r2 - 100 * ?q\<bar> \<le> \<bar>100 * ?q\<bar> / 2 ^ 51"
    using r1(2) r2(2) by (rule two_roundings)
  moreover have "(r2 < 0) = (0 < t \<and> m < 0)"
    using r2(3) r1(3) False assms(1) by (simp add: divide_less_0_iff mult_less_0_iff)
  ultimately show ?thesis
    by blast
qed

lemma decimal_0: "decimal 0 = ''0''"
  by code_simp

lemma decimal_split:
  "(if n < 10 then ''0'' @ decimal n else decimal n) = decimal (n div 10) @ [digit (n mod 10)]"
proof (cases "n < 10")
  case True
  then show ?thesis
    by (simp add: decimal.simps [of n] decimal_0)
next
  case False
  then show ?thesis
    by (simp add: decimal.simps [of n])
qed

text \<open>\<^verbatim>\<open>toFixed(1)\<close> writes the number of tenths nearest to its argument.\<close>

lemma fixed1_digits:
  "\<exists>n. fixed1 x = (if x < 0 then ''-'' else '''') @ decimal (n div 10) @ ''.'' @ [digit (n mod 10)]
      \<and> \<bar>of_nat n / 10 - \<bar>x\<bar>\<bar> \<le> 1 / 20"
proof -
  let ?k = "\<lfloor>\<bar>x\<bar> * 10 + 1 / 2\<rfloor>"
  let ?n = "nat ?k"
  have "0 \<le> \<bar>x\<bar> * 10 + 1 / 2"
    by simp
  then have "0 \<le> ?k"
    by (simp only: zero_le_floor)
  then have n: "(of_nat ?n :: rat) = of_int ?k"
    by simp
  define a where "a = \<bar>x\<bar>"
  define k :: rat where "k = of_int ?k"
  have "k \<le> a * 10 + 1 / 2" and "a * 10 + 1 / 2 < k + 1"
    unfolding a_def k_def by linarith+
  then have "\<bar>k / 10 - a\<bar> \<le> 1 / 20"
    unfolding abs_le_iff by (simp_all add: field_simps)
  then have near: "\<bar>of_nat ?n / 10 - \<bar>x\<bar>\<bar> \<le> 1 / 20"
    unfolding n a_def k_def .
  have "fixed1 x = (if x < 0 then ''-'' else '''') @ decimal (?n div 10) @ ''.'' @ [digit (?n mod 10)]"
    by (simp add: fixed1_def Let_def decimal_split)
  with near show ?thesis
    by (intro exI [of _ ?n] conjI)
qed

lemma utilization_near:
  fixes t :: nat and m :: int
  assumes "m \<noteq> 0" and "\<bar>m\<bar> \<le> 2 ^ 53" and "t \<le> 2 ^ 53"
  shows "\<exists>n. toFixed1 (js_times (js_over t m) 100) =
              Digits ((if 0 < t \<and> m < 0 then ''-'' else '''')
                      @ decimal (n div 10) @ ''.'' @ [digit (n mod 10)]) \<and>
            \<bar>of_nat n / 10 - \<bar>100 * (of_nat t / of_int m :: rat)\<bar>\<bar>
              \<le> 1 / 20 + \<bar>100 * (of_nat t / of_int m)\<bar> / 2 ^ 51"
proof -
  let ?p = "100 * (of_nat t / of_int m) :: rat"
  obtain x where x: "js_times (js_over t m) 100 = Finite x"
    and err: "\<bar>x - ?p\<bar> \<le> \<bar>?p\<bar> / 2 ^ 51" and neg: "(x < 0) = (0 < t \<and> m < 0)"
    using percent_near [OF assms] by blast
  have p_size: "\<bar>?p\<bar> \<le> 100 * 2 ^ 53"
  proof -
    have "(of_nat t :: rat) \<le> of_nat (2 ^ 53)"
      using assms(3) by (simp only: of_nat_le_iff)
    then have t: "(of_nat t :: rat) \<le> 2 ^ 53"
      by simp
    have "1 \<le> \<bar>m\<bar>"
      using assms(1) by simp
    then have "(of_int 1 :: rat) \<le> of_int \<bar>m\<bar>"
      by (simp only: of_int_le_iff)
    then have "(of_nat t :: rat) / of_int \<bar>m\<bar> \<le> of_nat t / 1"
      by (intro divide_left_mono) simp_all
    with t have "(of_nat t :: rat) / of_int \<bar>m\<bar> \<le> 2 ^ 53"
      by simp
    then have "100 * ((of_nat t :: rat) / of_int \<bar>m\<bar>) \<le> 100 * 2 ^ 53"
      by (intro mult_left_mono) simp_all
    then show ?thesis
      by (simp add: abs_mult abs_divide)
  qed
  have "\<bar>?p\<bar> / 2 ^ 51 \<le> \<bar>?p\<bar> / 1"
    by (intro divide_left_mono) simp_all
  then have "\<bar>?p\<bar> / 2 ^ 51 \<le> \<bar>?p\<bar>"
    by simp
  with err have "\<bar>x - ?p\<bar> \<le> \<bar>?p\<bar>"
    by (rule order_trans)
  then have "\<bar>x\<bar> \<le> 2 * \<bar>?p\<bar>"
    by (simp add: abs_if split: if_splits)
  also have "\<dots> \<le> 2 * (100 * 2 ^ 53)"
    using p_size by (intro mult_left_mono) simp_all
  also have "\<dots> < (10::rat) ^ 21"
    by simp
  finally have fixed: "\<not> 10 ^ 21 \<le> \<bar>x\<bar>"
    by simp
  obtain n where n: "fixed1 x = (if x < 0 then ''-'' else '''') @ decimal (n div 10) @ ''.'' @ [digit (n mod 10)]"
    and tenths: "\<bar>of_nat n / 10 - \<bar>x\<bar>\<bar> \<le> 1 / 20"
    using fixed1_digits [of x] by blast
  have "of_nat n / 10 - \<bar>?p\<bar> = (of_nat n / 10 - \<bar>x\<bar>) + (\<bar>x\<bar> - \<bar>?p\<bar>)"
    by simp
  then have "\<bar>of_nat n / 10 - \<bar>?p\<bar>\<bar> \<le> \<bar>of_nat n / 10 - \<bar>x\<bar>\<bar> + \<bar>\<bar>x\<bar> - \<bar>?p\<bar>\<bar>"
    by (simp only: abs_triangle_ineq)
  also have "\<dots> \<le> 1 / 20 + \<bar>x - ?p\<bar>"
    by (intro add_mono tenths abs_triangle_ineq3)
  also have "\<dots> \<le> 1 / 20 + \<bar>?p\<bar> / 2 ^ 51"
    using err by simp
  finally have close: "\<bar>of_nat n / 10 - \<bar>?p\<bar>\<bar> \<le> 1 / 20 + \<bar>?p\<bar> / 2 ^ 51" .
  have "toFixed1 (js_times (js_over t m) 100) =
      Digits ((if 0 < t \<and> m < 0 then ''-'' else '''') @ decimal (n div 10) @ ''.'' @ [digit (n mod 10)])"
    using fixed by (simp only: x toFixed1.simps if_False n neg)
  then show ?thesis
    using close by (intro exI [of _ n] conjI)
qed

subsection \<open>The pipeline on the store\<close>

lemma preserves_trans: "preserves s s' \<Longrightarrow> preserves s' s'' \<Longrightarrow> preserves s s''"
  by (auto simp: preserves_def)

text \<open>
  On the store the two stages compute what the functions on lists compute, in a new
  array, and leave the arrays that were there alone.
\<close>

lemma select_st_refines:
  assumes "h < allocated s"
  shows "arrays (snd (selectRelevantMessages_st h p s)) (fst (selectRelevantMessages_st h p s))
           = selectRelevantMessages (CONFIG s) (arrays s h) p"
    and "preserves s (snd (selectRelevantMessages_st h p s))"
    and "fst (selectRelevantMessages_st h p s) < allocated (snd (selectRelevantMessages_st h p s))"
  using assms
  by (simp_all add: selectRelevantMessages_st_def selectRelevantMessages_def new_array_def
      set_array_def console_log_def preserves_def Let_def)

lemma truncate_loop_st_refines:
  assumes "messages \<noteq> result" and "i \<le> length (arrays s messages)"
  shows "arrays (truncate_loop_st mx messages i t result s) result
           = truncate_loop mx (rev (take i (arrays s messages))) t (arrays s result) \<and>
         (\<forall>r. r \<noteq> result \<longrightarrow> arrays (truncate_loop_st mx messages i t result s) r = arrays s r) \<and>
         CONFIG (truncate_loop_st mx messages i t result s) = CONFIG s \<and>
         allocated (truncate_loop_st mx messages i t result s) = allocated s"
  using assms
proof (induction i arbitrary: t s)
  case 0
  then show ?case by simp
next
  case (Suc i)
  let ?msg = "arrays s messages ! i"
  let ?size = "int (length (content ?msg)) + 30"
  have rev_take: "rev (take (Suc i) (arrays s messages)) = ?msg # rev (take i (arrays s messages))"
    using Suc.prems by (simp add: take_Suc_conv_app_nth)
  show ?case
  proof (cases "t + ?size > mx \<and> length (arrays s result) > 0")
    case True
    then show ?thesis
      by (simp add: rev_take Let_def console_log_def)
  next
    case False
    let ?s = "set_array result (?msg # arrays s result) s"
    have same: "arrays ?s messages = arrays s messages"
      and grown: "arrays ?s result = ?msg # arrays s result"
      and others: "\<And>r. r \<noteq> result \<Longrightarrow> arrays ?s r = arrays s r"
      and fixed: "CONFIG ?s = CONFIG s" "allocated ?s = allocated s"
      using Suc.prems by (simp_all add: set_array_def)
    have step: "truncate_loop_st mx messages (Suc i) t result s =
        truncate_loop_st mx messages i (t + ?size) result ?s"
      by (simp only: truncate_loop_st.simps Let_def False if_False)
    have pure_step: "truncate_loop mx (?msg # rev (take i (arrays s messages))) t (arrays s result) =
        truncate_loop mx (rev (take i (arrays s messages))) (t + ?size) (?msg # arrays s result)"
      by (simp only: truncate_loop.simps Let_def False if_False)
    have "i \<le> length (arrays ?s messages)"
      using Suc.prems same by simp
    from Suc.IH [OF Suc.prems(1) this, of "t + ?size"]
    show ?thesis
      unfolding step rev_take pure_step same grown fixed
      using others by simp
  qed
qed

lemma truncate_st_refines:
  assumes "m < allocated s"
  shows "arrays (snd (truncateToCharLimit_st m mx s)) (fst (truncateToCharLimit_st m mx s))
           = truncateToCharLimit (arrays s m) mx"
    and "preserves s (snd (truncateToCharLimit_st m mx s))"
proof -
  let ?s1 = "snd (new_array [] s)"
  let ?r = "allocated s"
  have ne: "m \<noteq> ?r"
    using assms by simp
  have a1: "arrays ?s1 m = arrays s m" "arrays ?s1 ?r = []"
    using assms by (simp_all add: new_array_def)
  have run: "truncateToCharLimit_st m mx s =
      (?r, truncate_loop_st mx m (length (arrays s m)) 0 ?r ?s1)"
    using a1 by (simp add: truncateToCharLimit_st_def new_array_def Let_def)
  have "length (arrays s m) \<le> length (arrays ?s1 m)"
    by (simp add: a1)
  from truncate_loop_st_refines [OF ne this, of mx 0]
  have loop: "arrays (truncate_loop_st mx m (length (arrays s m)) 0 ?r ?s1) ?r
           = truncate_loop mx (rev (arrays s m)) 0 []"
    and frame: "\<forall>r. r \<noteq> ?r \<longrightarrow> arrays (truncate_loop_st mx m (length (arrays s m)) 0 ?r ?s1) r = arrays ?s1 r"
    and cfg: "CONFIG (truncate_loop_st mx m (length (arrays s m)) 0 ?r ?s1) = CONFIG ?s1"
    and al: "allocated (truncate_loop_st mx m (length (arrays s m)) 0 ?r ?s1) = allocated ?s1"
    by (simp_all add: a1)
  show "arrays (snd (truncateToCharLimit_st m mx s)) (fst (truncateToCharLimit_st m mx s))
           = truncateToCharLimit (arrays s m) mx"
    by (simp add: run loop truncateToCharLimit_def)
  show "preserves s (snd (truncateToCharLimit_st m mx s))"
    using frame cfg al by (simp add: run preserves_def new_array_def)
qed

lemma foldl_chars:
  "foldl (\<lambda>sum msg. sum + length (content msg)) k ms = k + (\<Sum>m\<leftarrow>ms. length (content m))"
  by (induction ms arbitrary: k) simp_all

lemma pipeline_st_refines:
  fixes p :: string
  assumes "h < allocated s"
  defines "s1 \<equiv> snd (selectRelevantMessages_st h p s)"
    and "r1 \<equiv> fst (selectRelevantMessages_st h p s)"
  defines "s2 \<equiv> snd (truncateToCharLimit_st r1 (MAX_CONTEXT_CHARS (CONFIG s1)) s1)"
    and "r2 \<equiv> fst (truncateToCharLimit_st r1 (MAX_CONTEXT_CHARS (CONFIG s1)) s1)"
  shows "arrays s2 r1 = selectRelevantMessages (CONFIG s) (arrays s h) p"
    and "arrays s2 r2 = truncateToCharLimit (selectRelevantMessages (CONFIG s) (arrays s h) p)
                          (MAX_CONTEXT_CHARS (CONFIG s))"
    and "arrays s2 h = arrays s h"
    and "preserves s s2"
proof -
  have sel: "arrays s1 r1 = selectRelevantMessages (CONFIG s) (arrays s h) p"
    and p1: "preserves s s1" and in1: "r1 < allocated s1"
    unfolding s1_def r1_def using assms(1) by (rule select_st_refines)+
  have cfg1: "CONFIG s1 = CONFIG s"
    using p1 by (simp add: preserves_def)
  have tr: "arrays s2 r2 = truncateToCharLimit (arrays s1 r1) (MAX_CONTEXT_CHARS (CONFIG s1))"
    and p2: "preserves s1 s2"
    unfolding s2_def r2_def using in1 by (rule truncate_st_refines)+
  show "arrays s2 r1 = selectRelevantMessages (CONFIG s) (arrays s h) p"
    using p2 in1 sel by (simp add: preserves_def)
  show "arrays s2 r2 = truncateToCharLimit (selectRelevantMessages (CONFIG s) (arrays s h) p)
                          (MAX_CONTEXT_CHARS (CONFIG s))"
    using tr sel cfg1 by simp
  show "preserves s s2"
    using p1 p2 by (rule preserves_trans)
  then show "arrays s2 h = arrays s h"
    using assms(1) by (simp add: preserves_def)
qed

lemma build_value:
  assumes "h < allocated s"
  shows "fst (buildOptimizedContext h p s) =
           format_context (CONFIG s)
             (truncateToCharLimit (selectRelevantMessages (CONFIG s) (arrays s h) p)
                (MAX_CONTEXT_CHARS (CONFIG s)))"
proof -
  note r = pipeline_st_refines [OF assms, of p]
  have "CONFIG (snd (truncateToCharLimit_st (fst (selectRelevantMessages_st h p s))
           (MAX_CONTEXT_CHARS (CONFIG (snd (selectRelevantMessages_st h p s))))
           (snd (selectRelevantMessages_st h p s)))) = CONFIG s"
    using r(4) by (simp add: preserves_def)
  then show ?thesis
    by (simp add: buildOptimizedContext_def case_prod_unfold Let_def console_log_def r(2))
qed

text \<open>
  Claim C9. For a history that is an array of the store, \<^verbatim>\<open>getContextStats\<close> returns the
  size of the history, the number of messages the selector returns, the number of messages
  left after budgeting, the sum of their content lengths, and that sum as a percentage of
  \<^verbatim>\<open>MAX_CONTEXT_CHARS\<close> in the rendering of \<^verbatim>\<open>toFixed(1)\<close>. For a nonzero budget (budget
  and sum being doubles) the rendering is a sign, digits, a point and one digit, and the
  number of tenths it shows lies within 0.05, and the rounding error of the doubles, of
  the exact percentage. The call writes only arrays it has allocated itself: the history,
  every other array of the caller and \<^verbatim>\<open>CONFIG\<close> are unchanged (it does print to the
  console), so \<^verbatim>\<open>buildOptimizedContext\<close> on the same history and prompt returns the same
  string after the call as before it.
\<close>

theorem getContextStats_read_only:
  assumes "conversationHistory < allocated s"
  shows "(case getContextStats conversationHistory currentPrompt s of
           (st, s') \<Rightarrow>
             totalMessages st = length (arrays s conversationHistory) \<and>
             relevantMessages st =
               length (selectRelevantMessages (CONFIG s) (arrays s conversationHistory) currentPrompt) \<and>
             includedMessages st =
               length (truncateToCharLimit
                 (selectRelevantMessages (CONFIG s) (arrays s conversationHistory) currentPrompt)
                 (MAX_CONTEXT_CHARS (CONFIG s))) \<and>
             totalChars st =
               (\<Sum>m\<leftarrow>truncateToCharLimit
                 (selectRelevantMessages (CONFIG s) (arrays s conversationHistory) currentPrompt)
                 (MAX_CONTEXT_CHARS (CONFIG s)). length (content m)) \<and>
             utilizationPercent st =
               toFixed1 (js_times (js_over (totalChars st) (MAX_CONTEXT_CHARS (CONFIG s))) 100) \<and>
             (MAX_CONTEXT_CHARS (CONFIG s) \<noteq> 0 \<and> \<bar>MAX_CONTEXT_CHARS (CONFIG s)\<bar> \<le> 2 ^ 53 \<and>
              totalChars st \<le> 2 ^ 53 \<longrightarrow>
                (\<exists>n. utilizationPercent st =
                       Digits ((if 0 < totalChars st \<and> MAX_CONTEXT_CHARS (CONFIG s) < 0
                                then ''-'' else '''')
                               @ decimal (n div 10) @ ''.'' @ [digit (n mod 10)]) \<and>
                     \<bar>of_nat n / 10
                        - \<bar>100 * (of_nat (totalChars st) / of_int (MAX_CONTEXT_CHARS (CONFIG s)) :: rat)\<bar>\<bar>
                       \<le> 1 / 20
                          + \<bar>100 * (of_nat (totalChars st) / of_int (MAX_CONTEXT_CHARS (CONFIG s)))\<bar>
                            / 2 ^ 51)) \<and>
             preserves s s' \<and>
             fst (buildOptimizedContext conversationHistory currentPrompt s') =
               fst (buildOptimizedContext conversationHistory currentPrompt s))"
proof -
  let ?s1 = "snd (selectRelevantMessages_st conversationHistory currentPrompt s)"
  let ?r1 = "fst (selectRelevantMessages_st conversationHistory currentPrompt s)"
  let ?s2 = "snd (truncateToCharLimit_st ?r1 (MAX_CONTEXT_CHARS (CONFIG ?s1)) ?s1)"
  let ?r2 = "fst (truncateToCharLimit_st ?r1 (MAX_CONTEXT_CHARS (CONFIG ?s1)) ?s1)"
  note r = pipeline_st_refines [OF assms, of currentPrompt]
  have cfg: "CONFIG ?s2 = CONFIG s" and still: "conversationHistory < allocated ?s2"
    and same: "arrays ?s2 conversationHistory = arrays s conversationHistory"
    using r(4) assms by (simp_all add: preserves_def)
  have "fst (buildOptimizedContext conversationHistory currentPrompt ?s2) =
        fst (buildOptimizedContext conversationHistory currentPrompt s)"
    by (simp add: build_value [OF still] build_value [OF assms] cfg same)
  then show ?thesis
    using r(4) utilization_near
    by (simp add: getContextStats_def case_prod_unfold Let_def r(1,2,3) cfg foldl_chars)
qed

theorem getContextStats_read_only_witness:
  "0 < allocated example_store \<and>
   MAX_CONTEXT_CHARS (CONFIG example_store) \<noteq> 0 \<and>
   \<bar>MAX_CONTEXT_CHARS (CONFIG example_store)\<bar> \<le> 2 ^ 53 \<and>
   fst (getContextStats 0 ''what's a good pizza dough recipe'' example_store) =
     \<lparr>totalMessages = 5, relevantMessages = 5, includedMessages = 5, totalChars = 127,
      utilizationPercent = Digits ''3.2''\<rparr> \<and>
   arrays (snd (getContextStats 0 ''what's a good pizza dough recipe'' example_store)) 0
     = pizza_history \<and>
   CONFIG (snd (getContextStats 0 ''what's a good pizza dough recipe'' example_store))
     = default_config \<and>
   fst (buildOptimizedContext 0 ''what's a good pizza dough recipe''
          (snd (getContextStats 0 ''what's a good pizza dough recipe'' example_store))) =
   fst (buildOptimizedContext 0 ''what's a good pizza dough recipe'' example_store)"
proof -
  let ?p = "''what's a good pizza dough recipe''"
  have a: "0 < allocated example_store"
    by (simp add: example_store_def)
  have s: "arrays example_store 0 = pizza_history" "CONFIG example_store = default_config"
    by (simp_all add: example_store_def)
  have sel: "selectRelevantMessages default_config pizza_history ?p = pizza_history"
    by code_simp
  have tr: "truncateToCharLimit pizza_history (MAX_CONTEXT_CHARS default_config) = pizza_history"
    by code_simp
  have n: "length pizza_history = 5" "(\<Sum>m\<leftarrow>pizza_history. length (content m)) = 127"
    by (simp_all add: pizza_history_def)
  have u: "toFixed1 (js_times (js_over 127 (MAX_CONTEXT_CHARS default_config)) 100) = Digits ''3.2''"
    by code_simp
  obtain st s' where run: "getContextStats 0 ?p example_store = (st, s')"
    by (cases "getContextStats 0 ?p example_store")
  have "st = \<lparr>totalMessages = 5, relevantMessages = 5, includedMessages = 5, totalChars = 127,
      utilizationPercent = Digits ''3.2''\<rparr>"
    and "arrays s' 0 = pizza_history" and "CONFIG s' = default_config"
    and "fst (buildOptimizedContext 0 ?p s') = fst (buildOptimizedContext 0 ?p example_store)"
    using getContextStats_read_only [OF a, of ?p] a
    by (simp_all add: run s sel tr n u preserves_def)
  then show ?thesis
    using a by (simp add: run s default_config_simps)
qed

end
